theory Spec2Isabelle
  imports Main "HOL-Library.Sublist"
begin

section \<open>Text\<close>

text \<open>
  A Python \<^verbatim>\<open>str\<close> is a sequence of Unicode code points, so text is a list of natural
  numbers here, one per code point. \<open>ustr\<close> turns an ASCII literal into such a list.
  \<^verbatim>\<open>s.startswith(p)\<close> is \<open>prefix p s\<close>, \<^verbatim>\<open>s.endswith(p)\<close> is \<open>suffix p s\<close> and
  \<^verbatim>\<open>p in s\<close> is \<open>sublist p s\<close>.
\<close>

type_synonym pystr = "nat list"

definition ustr :: "string \<Rightarrow> pystr" where
  "ustr s = map of_char s"

text \<open>
  The character tables of CPython (Unicode 14). \<^verbatim>\<open>\d\<close> of the \<^verbatim>\<open>re\<close> module matches the
  code points of category Nd, which come in 66 blocks of ten consecutive digits;
  \<open>nd_zeros\<close> lists the zero of every block. \<^verbatim>\<open>\s\<close> matches the 29 code points of
  \<open>is_space\<close>.
\<close>

definition nd_zeros :: "nat list" where
  "nd_zeros = [48, 1632, 1776, 1984, 2406, 2534, 2662, 2790, 2918, 3046, 3174, 3302, 3430,
     3558, 3664, 3792, 3872, 4160, 4240, 6112, 6160, 6470, 6608, 6784, 6800, 6992, 7088,
     7232, 7248, 42528, 43216, 43264, 43472, 43504, 43600, 44016, 65296, 66720, 68912,
     69734, 69872, 69942, 70096, 70384, 70736, 70864, 71248, 71360, 71472, 71904, 72016,
     72784, 73040, 73120, 92768, 92864, 93008, 120782, 120792, 120802, 120812, 120822,
     123200, 123632, 125264, 130032]"

definition is_digit :: "nat \<Rightarrow> bool" where
  "is_digit c = list_ex (\<lambda>z. z \<le> c \<and> c < z + 10) nd_zeros"

definition digit_value :: "nat \<Rightarrow> nat" where
  "digit_value c = (case find (\<lambda>z. z \<le> c \<and> c < z + 10) nd_zeros of
                      Some z \<Rightarrow> c - z | None \<Rightarrow> 0)"

definition is_space :: "nat \<Rightarrow> bool" where
  "is_space c = (c \<in> set [9, 10, 11, 12, 13, 28, 29, 30, 31, 32, 133, 160, 5760, 8192, 8193,
     8194, 8195, 8196, 8197, 8198, 8199, 8200, 8201, 8202, 8232, 8233, 8239, 8287, 12288])"

text \<open>
  Case mappings. The tables hold every code point below 256 that CPython maps, and every
  code point above whose image contains an ASCII character; the remaining cased letters
  (which CPython maps to non-ASCII letters) are left as they are, which no comparison
  with the ASCII patterns of this program can observe.
  \<open>lower_cp\<close> is \<^verbatim>\<open>str.lower\<close> on one code point, \<open>title_cp\<close> the title-case mapping
  that \<^verbatim>\<open>str.capitalize\<close> applies to the first code point.
\<close>

definition lower_cp :: "nat \<Rightarrow> pystr" where
  "lower_cp c =
     (if (65 \<le> c \<and> c \<le> 90) \<or> (192 \<le> c \<and> c \<le> 222 \<and> c \<noteq> 215) then [c + 32]
      else if c = 304 then [105, 775]
      else if c = 8490 then [107]
      else [c])"

definition lower :: "pystr \<Rightarrow> pystr" where
  "lower s = concat (map lower_cp s)"

definition title_cp :: "nat \<Rightarrow> pystr" where
  "title_cp c =
     (if (97 \<le> c \<and> c \<le> 122) \<or> (224 \<le> c \<and> c \<le> 254 \<and> c \<noteq> 247) then [c - 32]
      else if c = 181 then [924]
      else if c = 223 then [83, 115]
      else if c = 255 then [376]
      else if c = 305 then [73]
      else if c = 329 then [700, 78]
      else if c = 383 then [83]
      else if c = 496 then [74, 780]
      else if c = 7830 then [72, 817]
      else if c = 7831 then [84, 776]
      else if c = 7832 then [87, 778]
      else if c = 7833 then [89, 778]
      else if c = 7834 then [65, 702]
      else if c = 64256 then [70, 102]
      else if c = 64257 then [70, 105]
      else if c = 64258 then [70, 108]
      else if c = 64259 then [70, 102, 105]
      else if c = 64260 then [70, 102, 108]
      else if c = 64261 \<or> c = 64262 then [83, 116]
      else [c])"

definition capitalize :: "pystr \<Rightarrow> pystr" where
  "capitalize s = (case s of [] \<Rightarrow> [] | c # cs \<Rightarrow> title_cp c @ lower cs)"

text \<open>
  \<^verbatim>\<open>re.IGNORECASE\<close>: the matcher lower-cases the code point of the text with the simple
  (one to one) mapping \<open>sre_lower\<close> and compares it with the lower-cased letter of the
  pattern; for the pattern letters i and s it also accepts U+0131 (dotless i) and U+017F
  (long s). For an ASCII letter of the pattern, \<open>ic_match\<close> accepts the two ASCII
  letters and U+0130, U+0131 (for i), U+017F (for s), U+212A (for k), as the documentation
  of the \<^verbatim>\<open>re\<close> module states.
\<close>

definition sre_lower :: "nat \<Rightarrow> nat" where
  "sre_lower c =
     (if (65 \<le> c \<and> c \<le> 90) \<or> (192 \<le> c \<and> c \<le> 222 \<and> c \<noteq> 215) then c + 32
      else if c = 304 then 105
      else if c = 8490 then 107
      else c)"

definition ic_match :: "nat \<Rightarrow> nat \<Rightarrow> bool" where
  "ic_match p c =
     (sre_lower c = sre_lower p
      \<or> (sre_lower p = 105 \<and> c = 305)
      \<or> (sre_lower p = 115 \<and> c = 383))"

definition ic_prefix :: "pystr \<Rightarrow> pystr \<Rightarrow> bool" where
  "ic_prefix p s = (length p \<le> length s \<and> list_all2 ic_match p (take (length p) s))"

text \<open>\<^verbatim>\<open>str(n)\<close> and \<^verbatim>\<open>int(s)\<close> for a non-negative integer, and \<^verbatim>\<open>s.zfill(w)\<close>.
  \<^verbatim>\<open>int\<close> is only applied to a non-empty run of \<^verbatim>\<open>\d\<close> characters, which it
  accepts; the interpreter's configurable limit on the number of digits is not modelled.\<close>

fun py_str :: "nat \<Rightarrow> pystr" where
  "py_str n = (if n < 10 then [48 + n] else py_str (n div 10) @ [48 + n mod 10])"

declare py_str.simps [simp del]

definition py_int :: "pystr \<Rightarrow> nat" where
  "py_int s = foldl (\<lambda>n c. 10 * n + digit_value c) 0 s"

definition zfill :: "nat \<Rightarrow> pystr \<Rightarrow> pystr" where
  "zfill w s =
     (if w \<le> length s then s
      else (case s of
              [] \<Rightarrow> replicate w 48
            | c # cs \<Rightarrow>
                if c = 43 \<or> c = 45 then c # replicate (w - length s) 48 @ cs
                else replicate (w - length s) 48 @ s))"

text \<open>\<^verbatim>\<open>pattern.search(s)\<close> tries the start positions from left to right, the end of the
  text included; \<open>m\<close> is the match anchored at the start of its argument.\<close>

fun re_search :: "(pystr \<Rightarrow> 'a option) \<Rightarrow> pystr \<Rightarrow> 'a option" where
  "re_search m [] = m []"
| "re_search m (c # cs) = (case m (c # cs) of Some g \<Rightarrow> Some g | None \<Rightarrow> re_search m cs)"

text \<open>The loop that drops duplicates and keeps the order, with its set \<open>seen\<close> and its
  list \<open>uniq\<close>.\<close>

fun dedup_loop :: "'a list \<Rightarrow> 'a set \<Rightarrow> 'a list \<Rightarrow> 'a list" where
  "dedup_loop [] seen uniq = uniq"
| "dedup_loop (i # rest) seen uniq =
     (if i \<notin> seen then dedup_loop rest (insert i seen) (uniq @ [i])
      else dedup_loop rest seen uniq)"

definition dedup :: "'a list \<Rightarrow> 'a list" where
  "dedup xs = dedup_loop xs {} []"

section \<open>Pages\<close>

text \<open>
  The HTML text of a page is represented by what BeautifulSoup's parser hands to the
  program: \<open>anchors\<close> are the \<^verbatim>\<open>href\<close> values of the \<^verbatim>\<open>a\<close> elements that have one, in
  document order; \<open>blocks\<close> are the results of \<^verbatim>\<open>get_text(strip=True)\<close> for the
  \<^verbatim>\<open>h1, h2, h3, div, span\<close> elements, in document order; \<open>title\<close> is \<open>None\<close> when the
  page has no \<^verbatim>\<open>title\<close> element, and otherwise holds its \<^verbatim>\<open>.string\<close>, which may be
  \<^verbatim>\<open>None\<close> itself.
\<close>

record html =
  anchors :: "pystr list"
  blocks :: "pystr list"
  title :: "pystr option option"

text \<open>
  The exceptions that can leave a function of the program: a failed request, a missing
  dictionary key, an error of the operating system, and the error of
  \<^verbatim>\<open>BeautifulSoup(text, "html.parser")\<close> on markup that the standard parser gives up on.
  The text of a page, as far as the program can tell, is the outcome of that call: the
  markup is rejected, or it is accepted with the document of type \<open>html\<close>.
\<close>

datatype error = RequestError | KeyError | OSError | ParserRejectedMarkup

datatype markup = Rejected | Accepted html

definition BeautifulSoup :: "markup \<Rightarrow> error + html" where
  "BeautifulSoup page_html =
     (case page_html of Rejected \<Rightarrow> Inl ParserRejectedMarkup | Accepted soup \<Rightarrow> Inr soup)"

definition BASE_URL :: pystr where
  "BASE_URL = ustr ''https://www.joplinmo.org''"

definition LIST_URL_TMPL :: "nat \<Rightarrow> pystr" where
  "LIST_URL_TMPL year = BASE_URL @ ustr ''/AgendaCenter/City-Council-26?MOBILE=ON&year='' @ py_str year"

definition absolute_url :: "pystr \<Rightarrow> pystr" where
  "absolute_url href =
     (if prefix (ustr ''http'') href then href
      else BASE_URL @ (if prefix (ustr ''/'') href then href else ustr ''/'' @ href))"

subsection \<open>Meeting identifiers\<close>

text \<open>The pattern \<^verbatim>\<open>/AgendaCenter/26/(\d+)\<close> at the start of \<open>s\<close>: the literal, then the
  longest non-empty run of digits, which is group 1.\<close>

definition meeting_id_at :: "pystr \<Rightarrow> pystr option" where
  "meeting_id_at s =
     (let p = ustr ''/AgendaCenter/26/'' in
      if prefix p s then
        (let ds = takeWhile is_digit (drop (length p) s) in
         if ds = [] then None else Some ds)
      else None)"

definition meeting_id_matches :: "html \<Rightarrow> nat list" where
  "meeting_id_matches soup =
     map py_int (List.map_filter (re_search meeting_id_at) (anchors soup))"

definition extract_meeting_ids :: "markup \<Rightarrow> error + nat list" where
  "extract_meeting_ids list_html =
     (case BeautifulSoup list_html of
        Inl e \<Rightarrow> Inl e
      | Inr soup \<Rightarrow> Inr (dedup (meeting_id_matches soup)))"

subsection \<open>Meeting dates\<close>

definition month_regex :: "pystr list" where
  "month_regex = map ustr [''January'', ''February'', ''March'', ''April'', ''May'', ''June'',
     ''July'', ''August'', ''September'', ''October'', ''November'', ''December'']"

definition month_num :: "(pystr \<times> pystr) list" where
  "month_num = map (\<lambda>(k, v). (ustr k, ustr v))
     [(''January'', ''01''), (''February'', ''02''), (''March'', ''03''), (''April'', ''04''),
      (''May'', ''05''), (''June'', ''06''), (''July'', ''07''), (''August'', ''08''),
      (''September'', ''09''), (''October'', ''10''), (''November'', ''11''),
      (''December'', ''12'')]"

text \<open>
  The date pattern \<^verbatim>\<open>(January|...|December)\s+(\d{1,2}),?\s+(\d{4})\<close> with
  \<^verbatim>\<open>re.IGNORECASE\<close>, at the start of \<open>s\<close>. No month name is a prefix of another, so at
  most one alternative matches at a position. Each greedy item has one way to succeed:
  \<^verbatim>\<open>\s+\<close> must take the whole run of white space (what follows it is a digit),
  \<^verbatim>\<open>\d{1,2}\<close> must take two digits when there are two (after one digit the pattern needs
  a comma or white space), and \<^verbatim>\<open>,?\<close> must take the comma when there is one. The result
  holds the groups 1, 2 and 3.
\<close>

definition date_at :: "pystr \<Rightarrow> (pystr \<times> pystr \<times> pystr) option" where
  "date_at s =
     (case find (\<lambda>p. ic_prefix p s) month_regex of
        None \<Rightarrow> None
      | Some p \<Rightarrow>
          (let month_str = take (length p) s;
               r1 = drop (length p) s;
               r2 = dropWhile is_space r1;
               day_str = takeWhile is_digit (take 2 r2);
               r3 = drop (length day_str) r2;
               r4 = (case r3 of [] \<Rightarrow> [] | c # cs \<Rightarrow> if c = 44 then cs else r3);
               r5 = dropWhile is_space r4;
               year_str = take 4 r5
           in if takeWhile is_space r1 \<noteq> [] \<and> day_str \<noteq> [] \<and> takeWhile is_space r4 \<noteq> []
                 \<and> length year_str = 4 \<and> list_all is_digit year_str
              then Some (month_str, day_str, year_str)
              else None))"

definition possible_texts :: "html \<Rightarrow> pystr list" where
  "possible_texts soup =
     filter (\<lambda>t. t \<noteq> []) (blocks soup)
     @ (case title soup of
          None \<Rightarrow> []
        | Some s \<Rightarrow> [case s of None \<Rightarrow> [] | Some t \<Rightarrow> t])"

text \<open>What the loop does with a match: the dictionary lookup raises \<^verbatim>\<open>KeyError\<close> on a
  key it does not hold.\<close>

definition format_date :: "pystr \<times> pystr \<times> pystr \<Rightarrow> error + pystr" where
  "format_date g =
     (case g of (month_str, day_str, year_str) \<Rightarrow>
        (case map_of month_num (capitalize month_str) of
           None \<Rightarrow> Inl KeyError
         | Some mn \<Rightarrow> Inr (mn @ zfill 2 day_str @ year_str)))"

fun scan_texts :: "pystr list \<Rightarrow> error + pystr" where
  "scan_texts [] = Inr []"
| "scan_texts (t # rest) =
     (case re_search date_at t of
        Some g \<Rightarrow> format_date g
      | None \<Rightarrow> scan_texts rest)"

definition parse_meeting_date :: "markup \<Rightarrow> error + pystr" where
  "parse_meeting_date page_html =
     (case BeautifulSoup page_html of
        Inl e \<Rightarrow> Inl e
      | Inr soup \<Rightarrow> scan_texts (possible_texts soup))"

subsection \<open>File links\<close>

definition EXTENSIONS :: "pystr list" where
  "EXTENSIONS = map ustr [''.pdf'', ''.zip'', ''.doc'', ''.docx'', ''.xls'', ''.xlsx'', ''.ppt'', ''.pptx'']"

definition has_extension :: "pystr \<Rightarrow> bool" where
  "has_extension url = list_ex (\<lambda>e. suffix e (lower url)) EXTENSIONS"

text \<open>The branch for direct file extensions.\<close>

definition direct_type :: "pystr \<Rightarrow> pystr" where
  "direct_type url =
     (if sublist (ustr ''/agenda/'') (lower url) \<or> sublist (ustr ''/viewfile/agenda/'') (lower url)
      then ustr ''agenda''
      else if sublist (ustr ''/minutes/'') (lower url) \<or> sublist (ustr ''/viewfile/minutes/'') (lower url)
      then ustr ''minutes''
      else if sublist (ustr ''/packet/'') (lower url) \<or> sublist (ustr ''/viewfile/packet/'') (lower url)
      then ustr ''packet''
      else ustr ''other'')"

text \<open>The branch for the ViewFile endpoints; \<open>None\<close> when the link is not kept.
  \<^verbatim>\<open>url.split("?")[0]\<close> is the text before the first question mark.\<close>

definition viewfile_type :: "pystr \<Rightarrow> pystr option" where
  "viewfile_type url =
     (let clean_path = lower (takeWhile (\<lambda>c. c \<noteq> 63) url) in
      if sublist (ustr ''/viewfile/agenda/'') clean_path then
        (if sublist (ustr ''packet=true'') (lower url) then Some (ustr ''packet'')
         else Some (ustr ''agenda''))
      else if sublist (ustr ''/viewfile/minutes/'') clean_path then Some (ustr ''minutes'')
      else if sublist (ustr ''/viewfile/packet/'') clean_path then Some (ustr ''packet'')
      else None)"

definition classify_link :: "pystr \<Rightarrow> (pystr \<times> pystr) option" where
  "classify_link href =
     (let url = absolute_url href in
      if has_extension url then Some (url, direct_type url)
      else (case viewfile_type url of None \<Rightarrow> None | Some ftype \<Rightarrow> Some (url, ftype)))"

definition file_link_matches :: "html \<Rightarrow> (pystr \<times> pystr) list" where
  "file_link_matches soup = List.map_filter classify_link (anchors soup)"

definition extract_file_links :: "markup \<Rightarrow> error + (pystr \<times> pystr) list" where
  "extract_file_links page_html =
     (case BeautifulSoup page_html of
        Inl e \<Rightarrow> Inl e
      | Inr soup \<Rightarrow> Inr (dedup (file_link_matches soup)))"

section \<open>Paths and file names\<close>

text \<open>
  A path is the tuple of parts that \<^verbatim>\<open>pathlib\<close> keeps for a POSIX path: the root (one
  slash, or two when the text starts with exactly two), then the components between
  slashes, without the empty ones and the single dots. \<open>truediv\<close> is the operator
  \<^verbatim>\<open>/\<close>: an absolute right operand replaces the left one.
\<close>

type_synonym path = "pystr list"

fun split_on :: "nat \<Rightarrow> pystr \<Rightarrow> pystr list" where
  "split_on d [] = [[]]"
| "split_on d (c # cs) =
     (if c = d then [] # split_on d cs
      else (case split_on d cs of [] \<Rightarrow> [[c]] | p # ps \<Rightarrow> (c # p) # ps))"

definition path_components :: "pystr \<Rightarrow> pystr list" where
  "path_components s = filter (\<lambda>c. c \<noteq> [] \<and> c \<noteq> [46]) (split_on 47 s)"

definition path_root :: "pystr \<Rightarrow> pystr list" where
  "path_root s =
     (if prefix [47, 47] s \<and> \<not> prefix [47, 47, 47] s then [[47, 47]]
      else if prefix [47] s then [[47]]
      else [])"

definition Path :: "pystr \<Rightarrow> path" where
  "Path s = path_root s @ path_components s"

definition truediv :: "path \<Rightarrow> pystr \<Rightarrow> path" where
  "truediv p s = (if prefix [47] s then Path s else p @ Path s)"

definition path_name :: "pystr \<Rightarrow> pystr" where
  "path_name s = (case path_components s of [] \<Rightarrow> [] | c # cs \<Rightarrow> last (c # cs))"

text \<open>\<^verbatim>\<open>Path(url).suffix\<close>: with \<open>i\<close> the index of the last dot of the name, the
  suffix is the name from \<open>i\<close> on when \<open>0 < i < len(name) - 1\<close>, and empty otherwise.\<close>

definition path_suffix :: "pystr \<Rightarrow> pystr" where
  "path_suffix s =
     (let name = path_name s;
          ext = 46 # rev (takeWhile (\<lambda>c. c \<noteq> 46) (rev name))
      in if 46 \<in> set name \<and> length ext < length name \<and> 1 < length ext then ext else [])"

definition build_filename :: "pystr \<Rightarrow> pystr \<Rightarrow> pystr \<Rightarrow> pystr" where
  "build_filename date_str ftype url =
     (let ext = path_suffix url;
          ext = (if ext = [] then ustr ''.pdf'' else ext)
      in date_str @ ustr ''_'' @ ftype @ ext)"

section \<open>The network, the file system and the orchestrator\<close>

text \<open>
  The state the program works on: the file system, a map from paths to directories and
  files, and the trace of what the program did towards the outside, in order: the GET
  of \<^verbatim>\<open>fetch\<close>, the streaming GET of \<^verbatim>\<open>download\<close> with the destination it was
  called for, and the pause after a download. Console output is not part of the state.

  The remote side is a parameter: \<open>respond\<close> gives the page a GET returns, or \<open>None\<close>
  when \<^verbatim>\<open>requests.get\<close> or \<^verbatim>\<open>raise_for_status\<close> raises (network error, timeout,
  status that is not a success); \<open>transfer\<close> gives the outcome of a streaming GET. Both
  depend on the trace so far, so that the same address may answer differently later.

  So is what the operating system makes of a path that the file system does not hold:
  \<open>stat_raises p\<close> says that \<^verbatim>\<open>stat\<close> fails on \<open>p\<close> with an error that
  \<^verbatim>\<open>Path.exists\<close> passes on (a name longer than the system allows, for one) and not
  with one it takes for absence; \<open>open_raises p\<close> says that \<^verbatim>\<open>open(p, "wb")\<close> fails.
\<close>

datatype node = Dir | File "nat list"

datatype event = Fetch pystr | Stream pystr path | Sleep

datatype outcome = Refused | Broken "nat list" | Complete "nat list"

record world =
  respond :: "event list \<Rightarrow> pystr \<Rightarrow> markup option"
  transfer :: "event list \<Rightarrow> pystr \<Rightarrow> outcome"
  stat_raises :: "path \<Rightarrow> bool"
  open_raises :: "path \<Rightarrow> bool"

record state =
  fs :: "path \<Rightarrow> node option"
  trace :: "event list"

definition fetch :: "world \<Rightarrow> pystr \<Rightarrow> state \<Rightarrow> (error + markup) \<times> state" where
  "fetch W url st =
     ((case respond W (trace st) url of None \<Rightarrow> Inl RequestError | Some h \<Rightarrow> Inr h),
      st\<lparr>trace := trace st @ [Fetch url]\<rparr>)"

text \<open>\<^verbatim>\<open>p.mkdir(parents=True, exist_ok=True)\<close>: every missing ancestor and \<open>p\<close> itself
  become directories; a file in the way raises.\<close>

fun mkdir_from :: "path \<Rightarrow> pystr list \<Rightarrow> (path \<Rightarrow> node option) \<Rightarrow> error option \<times> (path \<Rightarrow> node option)" where
  "mkdir_from q [] f = (None, f)"
| "mkdir_from q (c # cs) f =
     (case f (q @ [c]) of
        None \<Rightarrow> mkdir_from (q @ [c]) cs (f(q @ [c] \<mapsto> Dir))
      | Some Dir \<Rightarrow> mkdir_from (q @ [c]) cs f
      | Some (File b) \<Rightarrow> (Some OSError, f))"

definition mkdir_parents :: "path \<Rightarrow> (path \<Rightarrow> node option) \<Rightarrow> error option \<times> (path \<Rightarrow> node option)" where
  "mkdir_parents p f = mkdir_from [] p f"

text \<open>\<^verbatim>\<open>download\<close>: the parent directory, then the request, then the file is opened for
  writing and filled chunk by chunk. A transfer that breaks after the file was opened
  leaves what was written.\<close>

definition download :: "world \<Rightarrow> pystr \<Rightarrow> path \<Rightarrow> state \<Rightarrow> error option \<times> state" where
  "download W url dst st =
     (case mkdir_parents (butlast dst) (fs st) of
        (Some e, f) \<Rightarrow> (Some e, st\<lparr>fs := f\<rparr>)
      | (None, f) \<Rightarrow>
          (let st1 = st\<lparr>fs := f, trace := trace st @ [Stream url dst]\<rparr> in
           case transfer W (trace st) url of
             Refused \<Rightarrow> (Some RequestError, st1)
           | Broken bs \<Rightarrow>
               (if f dst = Some Dir \<or> open_raises W dst then (Some OSError, st1)
                else (Some RequestError, st1\<lparr>fs := f(dst \<mapsto> File bs)\<rparr>))
           | Complete bs \<Rightarrow>
               (if f dst = Some Dir \<or> open_raises W dst then (Some OSError, st1)
                else (None, st1\<lparr>fs := f(dst \<mapsto> File bs)\<rparr>))))"

text \<open>\<^verbatim>\<open>dst.exists()\<close>: true for a path the file system holds; for another path it
  raises when \<^verbatim>\<open>stat\<close> fails with an error it does not take for absence.\<close>

definition path_exists :: "world \<Rightarrow> state \<Rightarrow> path \<Rightarrow> error + bool" where
  "path_exists W st p =
     (if fs st p \<noteq> None then Inr True
      else if stat_raises W p then Inl OSError
      else Inr False)"

text \<open>The body of the loop over the file links of a meeting, and the loop. The test
  for the destination stands before the \<^verbatim>\<open>try\<close>, so its error leaves the loop; what
  \<^verbatim>\<open>download\<close> raises is caught.\<close>

definition process_link :: "world \<Rightarrow> path \<Rightarrow> pystr \<Rightarrow> pystr \<times> pystr \<Rightarrow> state \<Rightarrow> error option \<times> state" where
  "process_link W year_dir date_str link st =
     (case link of (file_url, ftype) \<Rightarrow>
        (let filename = build_filename date_str ftype file_url;
             dst = truediv year_dir filename
         in case path_exists W st dst of
              Inl e \<Rightarrow> (Some e, st)
            | Inr True \<Rightarrow> (None, st)
            | Inr False \<Rightarrow>
                (case download W file_url dst st of
                   (None, st') \<Rightarrow> (None, st'\<lparr>trace := trace st' @ [Sleep]\<rparr>)
                 | (Some e, st') \<Rightarrow> (None, st'))))"

fun links_loop :: "world \<Rightarrow> path \<Rightarrow> pystr \<Rightarrow> (pystr \<times> pystr) list \<Rightarrow> state \<Rightarrow> error option \<times> state" where
  "links_loop W year_dir date_str [] st = (None, st)"
| "links_loop W year_dir date_str (link # rest) st =
     (case process_link W year_dir date_str link st of
        (Some e, st') \<Rightarrow> (Some e, st')
      | (None, st') \<Rightarrow> links_loop W year_dir date_str rest st')"

text \<open>The body of the loop over the meetings, after the meeting page was fetched, and
  with the fetch.\<close>

definition process_page :: "world \<Rightarrow> path \<Rightarrow> nat \<Rightarrow> markup \<Rightarrow> state \<Rightarrow> error option \<times> state" where
  "process_page W year_dir meeting_id meeting_html st =
     (case parse_meeting_date meeting_html of
        Inl e \<Rightarrow> (Some e, st)
      | Inr d \<Rightarrow>
          (let date_str = (if d = [] then ustr ''id'' @ py_str meeting_id else d) in
           case extract_file_links meeting_html of
             Inl e \<Rightarrow> (Some e, st)
           | Inr file_links \<Rightarrow> links_loop W year_dir date_str file_links st))"

definition meeting_url :: "nat \<Rightarrow> nat \<Rightarrow> pystr" where
  "meeting_url meeting_id year =
     BASE_URL @ ustr ''/AgendaCenter/26/'' @ py_str meeting_id @ ustr ''?MOBILE=ON&year='' @ py_str year"

definition process_meeting :: "world \<Rightarrow> nat \<Rightarrow> path \<Rightarrow> nat \<Rightarrow> state \<Rightarrow> error option \<times> state" where
  "process_meeting W year year_dir meeting_id st =
     (case fetch W (meeting_url meeting_id year) st of
        (Inl e, st') \<Rightarrow> (None, st')
      | (Inr meeting_html, st') \<Rightarrow> process_page W year_dir meeting_id meeting_html st')"

fun meetings_loop :: "world \<Rightarrow> nat \<Rightarrow> path \<Rightarrow> nat list \<Rightarrow> state \<Rightarrow> error option \<times> state" where
  "meetings_loop W year year_dir [] st = (None, st)"
| "meetings_loop W year year_dir (meeting_id # rest) st =
     (case process_meeting W year year_dir meeting_id st of
        (Some e, st') \<Rightarrow> (Some e, st')
      | (None, st') \<Rightarrow> meetings_loop W year year_dir rest st')"

definition scrape_year :: "world \<Rightarrow> nat \<Rightarrow> path \<Rightarrow> state \<Rightarrow> error option \<times> state" where
  "scrape_year W year out_root st =
     (case fetch W (LIST_URL_TMPL year) st of
        (Inl e, st1) \<Rightarrow> (Some e, st1)
      | (Inr list_html, st1) \<Rightarrow>
          (case extract_meeting_ids list_html of
             Inl e \<Rightarrow> (Some e, st1)
           | Inr meeting_ids \<Rightarrow>
               if meeting_ids = [] then (None, st1)
               else (let year_dir = truediv out_root (py_str year) in
                     case mkdir_parents year_dir (fs st1) of
                       (Some e, f) \<Rightarrow> (Some e, st1\<lparr>fs := f\<rparr>)
                     | (None, f) \<Rightarrow> meetings_loop W year year_dir meeting_ids (st1\<lparr>fs := f\<rparr>))))"

text \<open>\<^verbatim>\<open>main\<close>: the loop over \<^verbatim>\<open>range(2022, 2026)\<close>. An exception that leaves
  \<^verbatim>\<open>scrape_year\<close> is not caught, so it ends the loop.\<close>

fun years_loop :: "world \<Rightarrow> path \<Rightarrow> nat list \<Rightarrow> state \<Rightarrow> error option \<times> state" where
  "years_loop W out_root [] st = (None, st)"
| "years_loop W out_root (yr # rest) st =
     (case scrape_year W yr out_root st of
        (Some e, st') \<Rightarrow> (Some e, st')
      | (None, st') \<Rightarrow> years_loop W out_root rest st')"

definition main :: "world \<Rightarrow> state \<Rightarrow> error option \<times> state" where
  "main W st = years_loop W (Path (ustr ''joplin_council_pdfs'')) [2022..<2026] st"

section \<open>What a run leaves alone\<close>

text \<open>\<open>untouched p st st'\<close>: between the states \<open>st\<close> and \<open>st'\<close> the entry of the
  file system at \<open>p\<close> stayed as it was, the trace only grew, and no download was
  started for the destination \<open>p\<close>.\<close>

definition untouched :: "path \<Rightarrow> state \<Rightarrow> state \<Rightarrow> bool" where
  "untouched p st st' =
     (fs st' p = fs st p \<and> (\<exists>evs. trace st' = trace st @ evs \<and> (\<forall>url. Stream url p \<notin> set evs)))"

section \<open>Example inputs\<close>

definition listing_example :: html where
  "listing_example = \<lparr>anchors = [ustr ''/AgendaCenter/26/7'', ustr ''/Calendar'',
     ustr ''https://www.joplinmo.org/AgendaCenter/26/501?MOBILE=ON'', ustr ''/AgendaCenter/26/7''],
     blocks = [], title = None\<rparr>"

definition meeting_example :: html where
  "meeting_example = \<lparr>anchors = [ustr ''/AgendaCenter/ViewFile/Agenda/_05012023-501'',
     ustr ''/Calendar'',
     ustr ''/AgendaCenter/ViewFile/Minutes/_05012023-501'',
     ustr ''/AgendaCenter/ViewFile/Agenda/_05012023-501''],
     blocks = [], title = None\<rparr>"

definition overlap_href :: pystr where
  "overlap_href = ustr ''/AgendaCenter/ViewFile/Packet/Minutes/501.PDF''"


definition no_date_page :: html where
  "no_date_page = \<lparr>anchors = [ustr ''/AgendaCenter/ViewFile/Agenda/_05012023-777''],
     blocks = [ustr ''Agenda''], title = Some (Some (ustr ''City Council''))\<rparr>"

definition long_s_page :: html where
  "long_s_page = \<lparr>anchors = [], blocks = [ustr ''Augu'' @ 383 # ustr ''t 1, 2023''], title = None\<rparr>"

definition year_2022_down :: world where
  "year_2022_down =
     \<lparr>respond = (\<lambda>tr url. if url = LIST_URL_TMPL 2022 then None else Some (Accepted listing_example)),
      transfer = (\<lambda>tr url. Complete []),
      stat_raises = (\<lambda>p. False),
      open_raises = (\<lambda>p. False)\<rparr>"

definition empty_state :: state where
  "empty_state = \<lparr>fs = (\<lambda>p. None), trace = []\<rparr>"

definition kept_file :: path where
  "kept_file = [ustr ''joplin_council_pdfs'', ustr ''2023'', ustr ''05012023_agenda.pdf'']"

definition seeded_state :: state where
  "seeded_state = \<lparr>fs = (\<lambda>p. if p = kept_file then Some (File [37, 80, 68, 70]) else None), trace = []\<rparr>"

section \<open>Properties\<close>

subsection \<open>Evaluation of the text functions\<close>

lemmas text_eval = ustr_def is_digit_def nd_zeros_def digit_value_def py_int_def is_space_def
  lower_def lower_cp_def title_cp_def capitalize_def sre_lower_def ic_match_def ic_prefix_def
  zfill_def dedup_def

lemmas path_eval = Path_def path_root_def path_components_def path_name_def path_suffix_def
  truediv_def build_filename_def

lemmas link_eval = classify_link_def absolute_url_def BASE_URL_def has_extension_def
  EXTENSIONS_def direct_type_def viewfile_type_def sublist_Cons_right suffix_to_prefix

lemmas date_eval = date_at_def month_regex_def format_date_def month_num_def
  parse_meeting_date_def BeautifulSoup_def possible_texts_def

subsection \<open>Dropping duplicates\<close>

lemma dedup_loop_snoc:
  "dedup_loop (xs @ [x]) seen uniq =
     (if x \<in> seen \<union> set xs then dedup_loop xs seen uniq else dedup_loop xs seen uniq @ [x])"
  by (induction xs arbitrary: seen uniq) auto

lemma dedup_Nil: "dedup [] = []"
  by (simp add: dedup_def)

lemma dedup_snoc: "dedup (xs @ [x]) = (if x \<in> set xs then dedup xs else dedup xs @ [x])"
  by (simp add: dedup_def dedup_loop_snoc)

lemma set_dedup: "set (dedup xs) = set xs"
  by (induction xs rule: rev_induct) (auto simp: dedup_snoc dedup_Nil)

lemma distinct_dedup: "distinct (dedup xs)"
  by (induction xs rule: rev_induct) (auto simp: dedup_snoc dedup_Nil set_dedup)

lemma dedup_first_seen:
  "i < j \<Longrightarrow> j < length (dedup xs) \<Longrightarrow>
     \<exists>k<length xs. xs ! k = dedup xs ! i \<and> (\<forall>l<length xs. xs ! l = dedup xs ! j \<longrightarrow> k < l)"
proof (induction xs arbitrary: i j rule: rev_induct)
  case Nil
  then show ?case by (simp add: dedup_Nil)
next
  case (snoc x xs)
  show ?case
  proof (cases "j < length (dedup xs)")
    case True
    with snoc.IH [OF snoc.prems(1)] obtain k where k: "k < length xs" "xs ! k = dedup xs ! i"
      "\<forall>l<length xs. xs ! l = dedup xs ! j \<longrightarrow> k < l" by blast
    have eq: "dedup (xs @ [x]) ! i = dedup xs ! i" "dedup (xs @ [x]) ! j = dedup xs ! j"
      using True snoc.prems(1) by (auto simp: dedup_snoc nth_append)
    show ?thesis
    proof (intro exI conjI allI impI)
      show "k < length (xs @ [x])" using k(1) by simp
      show "(xs @ [x]) ! k = dedup (xs @ [x]) ! i" using k(1,2) eq by (simp add: nth_append)
      fix l assume "l < length (xs @ [x])" "(xs @ [x]) ! l = dedup (xs @ [x]) ! j"
      then show "k < l" using k(1,3) eq by (cases "l < length xs") (auto simp: nth_append)
    qed
  next
    case False
    then have new: "x \<notin> set xs" and j: "j = length (dedup xs)"
      using snoc.prems(2) by (auto simp: dedup_snoc split: if_splits)
    have i: "i < length (dedup xs)" using snoc.prems(1) j by simp
    then have "dedup xs ! i \<in> set (dedup xs)" by (rule nth_mem)
    then have "dedup xs ! i \<in> set xs" by (simp only: set_dedup)
    then obtain k where k: "k < length xs" "xs ! k = dedup xs ! i"
      by (auto simp: in_set_conv_nth)
    have eqi: "dedup (xs @ [x]) ! i = dedup xs ! i" using i new by (simp add: dedup_snoc nth_append)
    have eqj: "dedup (xs @ [x]) ! j = x" using j new by (simp add: dedup_snoc)
    show ?thesis
    proof (intro exI conjI allI impI)
      show "k < length (xs @ [x])" using k(1) by simp
      show "(xs @ [x]) ! k = dedup (xs @ [x]) ! i" using k eqi by (simp add: nth_append)
      fix l assume l: "l < length (xs @ [x])" "(xs @ [x]) ! l = dedup (xs @ [x]) ! j"
      show "k < l"
      proof (cases "l < length xs")
        case True
        then have "xs ! l = x" using l(2) eqj by (simp add: nth_append)
        then have "x \<in> set xs" using nth_mem [OF True] by simp
        with new show ?thesis by simp
      next
        case False then show ?thesis using k(1) by simp
      qed
    qed
  qed
qed

lemma map_filter_None: "(\<forall>a\<in>set xs. f a = None) \<Longrightarrow> List.map_filter f xs = []"
  by (induction xs) (auto simp: map_filter_simps)

subsection \<open>Meeting identifiers\<close>

text \<open>
  Claim C4. On markup that the parser accepts, meeting-ID extraction returns the
  matched identifiers without duplicates and in the order of their first occurrences:
  every identifier of the result stands in the list of matches before every occurrence
  of the identifiers that follow it in the result. A page none of whose links matches
  yields the empty list, and a page with two links to \<^verbatim>\<open>/AgendaCenter/26/501\<close> yields
  \<open>[501]\<close>.
\<close>

theorem extract_meeting_ids_first_seen:
  "(\<exists>r. extract_meeting_ids (Accepted h) = Inr r
        \<and> distinct r
        \<and> set r = set (meeting_id_matches h)
        \<and> (\<forall>i j. i < j \<and> j < length r \<longrightarrow>
              (\<exists>k<length (meeting_id_matches h).
                 meeting_id_matches h ! k = r ! i
                 \<and> (\<forall>l<length (meeting_id_matches h).
                       meeting_id_matches h ! l = r ! j \<longrightarrow> k < l)))
        \<and> ((\<forall>a\<in>set (anchors h). re_search meeting_id_at a = None) \<longrightarrow> r = []))
   \<and> extract_meeting_ids
        (Accepted \<lparr>anchors = [ustr ''/AgendaCenter/26/501'', ustr ''/AgendaCenter/26/501''],
                   blocks = bs, title = t\<rparr>) = Inr [501]"
proof (intro conjI)
  let ?r = "dedup (meeting_id_matches h)"
  have ret: "extract_meeting_ids (Accepted h) = Inr ?r"
    by (simp add: extract_meeting_ids_def BeautifulSoup_def)
  have d: "distinct ?r" by (rule distinct_dedup)
  have s: "set ?r = set (meeting_id_matches h)" by (rule set_dedup)
  have ord: "\<forall>i j. i < j \<and> j < length ?r \<longrightarrow>
              (\<exists>k<length (meeting_id_matches h).
                 meeting_id_matches h ! k = ?r ! i
                 \<and> (\<forall>l<length (meeting_id_matches h).
                       meeting_id_matches h ! l = ?r ! j \<longrightarrow> k < l))"
    using dedup_first_seen [of _ _ "meeting_id_matches h"] by blast
  have none: "(\<forall>a\<in>set (anchors h). re_search meeting_id_at a = None) \<longrightarrow> ?r = []"
  proof
    assume "\<forall>a\<in>set (anchors h). re_search meeting_id_at a = None"
    then have "List.map_filter (re_search meeting_id_at) (anchors h) = []"
      by (rule map_filter_None)
    then show "?r = []" by (simp add: meeting_id_matches_def dedup_Nil)
  qed
  from ret d s ord none
  show "\<exists>r. extract_meeting_ids (Accepted h) = Inr r
        \<and> distinct r
        \<and> set r = set (meeting_id_matches h)
        \<and> (\<forall>i j. i < j \<and> j < length r \<longrightarrow>
              (\<exists>k<length (meeting_id_matches h).
                 meeting_id_matches h ! k = r ! i
                 \<and> (\<forall>l<length (meeting_id_matches h).
                       meeting_id_matches h ! l = r ! j \<longrightarrow> k < l)))
        \<and> ((\<forall>a\<in>set (anchors h). re_search meeting_id_at a = None) \<longrightarrow> r = [])"
    by blast
  show "extract_meeting_ids
        (Accepted \<lparr>anchors = [ustr ''/AgendaCenter/26/501'', ustr ''/AgendaCenter/26/501''],
                   blocks = bs, title = t\<rparr>) = Inr [501]"
    by (simp add: extract_meeting_ids_def BeautifulSoup_def meeting_id_matches_def meeting_id_at_def text_eval)
qed

lemma listing_example_matches: "meeting_id_matches listing_example = [7, 501, 7]"
  by (simp add: listing_example_def meeting_id_matches_def meeting_id_at_def text_eval)

lemma listing_example_ids: "extract_meeting_ids (Accepted listing_example) = Inr [7, 501]"
  by (simp add: extract_meeting_ids_def BeautifulSoup_def listing_example_matches dedup_def)

lemma calendar_no_id: "re_search meeting_id_at (ustr ''/Calendar'') = None"
  by (simp add: meeting_id_at_def text_eval)

theorem extract_meeting_ids_first_seen_witness:
  "extract_meeting_ids (Accepted listing_example) = Inr [7, 501]
   \<and> (0::nat) < 1 \<and> 1 < length [7, 501 :: nat]
   \<and> (\<exists>k<length (meeting_id_matches listing_example).
         meeting_id_matches listing_example ! k = [7, 501] ! 0
         \<and> (\<forall>l<length (meeting_id_matches listing_example).
               meeting_id_matches listing_example ! l = [7, 501] ! 1 \<longrightarrow> k < l))
   \<and> re_search meeting_id_at (ustr ''/Calendar'') = None
   \<and> extract_meeting_ids (Accepted \<lparr>anchors = [ustr ''/Calendar''], blocks = [], title = None\<rparr>) = Inr []"
proof -
  from extract_meeting_ids_first_seen [of listing_example] obtain r where
    r: "extract_meeting_ids (Accepted listing_example) = Inr r"
    and ord: "\<forall>i j. i < j \<and> j < length r \<longrightarrow>
              (\<exists>k<length (meeting_id_matches listing_example).
                 meeting_id_matches listing_example ! k = r ! i
                 \<and> (\<forall>l<length (meeting_id_matches listing_example).
                       meeting_id_matches listing_example ! l = r ! j \<longrightarrow> k < l))"
    by blast
  have req: "r = [7, 501]" using r listing_example_ids by simp
  have a: "(0::nat) < 1 \<and> 1 < length [7, 501 :: nat]" by simp
  from ord req a
  have first: "\<exists>k<length (meeting_id_matches listing_example).
         meeting_id_matches listing_example ! k = [7, 501] ! 0
         \<and> (\<forall>l<length (meeting_id_matches listing_example).
               meeting_id_matches listing_example ! l = [7, 501] ! 1 \<longrightarrow> k < l)"
    by blast
  let ?c = "\<lparr>anchors = [ustr ''/Calendar''], blocks = [], title = None\<rparr>"
  have c: "\<forall>a\<in>set (anchors ?c). re_search meeting_id_at a = None"
    by (simp add: calendar_no_id)
  from extract_meeting_ids_first_seen [of ?c] obtain r' where
    "extract_meeting_ids (Accepted ?c) = Inr r'"
    "(\<forall>a\<in>set (anchors ?c). re_search meeting_id_at a = None) \<longrightarrow> r' = []"
    by blast
  with c have empty: "extract_meeting_ids (Accepted ?c) = Inr []" by blast
  show ?thesis using listing_example_ids a first calendar_no_id empty by blast
qed

subsection \<open>File links\<close>

text \<open>
  Claim C9. On markup that the parser accepts, file-link extraction returns the
  classified (url, type) pairs without duplicates and in the order of their first
  occurrences.
\<close>

theorem extract_file_links_first_seen:
  "\<exists>r. extract_file_links (Accepted h) = Inr r
       \<and> distinct r
       \<and> set r = set (file_link_matches h)
       \<and> (\<forall>i j. i < j \<and> j < length r \<longrightarrow>
             (\<exists>k<length (file_link_matches h).
                file_link_matches h ! k = r ! i
                \<and> (\<forall>l<length (file_link_matches h).
                      file_link_matches h ! l = r ! j \<longrightarrow> k < l)))"
proof -
  let ?r = "dedup (file_link_matches h)"
  have ret: "extract_file_links (Accepted h) = Inr ?r"
    by (simp add: extract_file_links_def BeautifulSoup_def)
  have d: "distinct ?r" by (rule distinct_dedup)
  have s: "set ?r = set (file_link_matches h)" by (rule set_dedup)
  have ord: "\<forall>i j. i < j \<and> j < length ?r \<longrightarrow>
             (\<exists>k<length (file_link_matches h).
                file_link_matches h ! k = ?r ! i
                \<and> (\<forall>l<length (file_link_matches h).
                      file_link_matches h ! l = ?r ! j \<longrightarrow> k < l))"
    using dedup_first_seen [of _ _ "file_link_matches h"] by blast
  from ret d s ord show ?thesis by blast
qed

lemma meeting_example_matches:
  "file_link_matches meeting_example =
     [(ustr ''https://www.joplinmo.org/AgendaCenter/ViewFile/Agenda/_05012023-501'', ustr ''agenda''),
      (ustr ''https://www.joplinmo.org/AgendaCenter/ViewFile/Minutes/_05012023-501'', ustr ''minutes''),
      (ustr ''https://www.joplinmo.org/AgendaCenter/ViewFile/Agenda/_05012023-501'', ustr ''agenda'')]"
  by (simp add: meeting_example_def file_link_matches_def link_eval text_eval)

lemma meeting_example_links:
  "extract_file_links (Accepted meeting_example) =
     Inr [(ustr ''https://www.joplinmo.org/AgendaCenter/ViewFile/Agenda/_05012023-501'', ustr ''agenda''),
          (ustr ''https://www.joplinmo.org/AgendaCenter/ViewFile/Minutes/_05012023-501'', ustr ''minutes'')]"
  by (simp add: extract_file_links_def BeautifulSoup_def meeting_example_matches dedup_def)
     (simp add: ustr_def)

theorem extract_file_links_first_seen_witness:
  "extract_file_links (Accepted meeting_example) =
     Inr [(ustr ''https://www.joplinmo.org/AgendaCenter/ViewFile/Agenda/_05012023-501'', ustr ''agenda''),
          (ustr ''https://www.joplinmo.org/AgendaCenter/ViewFile/Minutes/_05012023-501'', ustr ''minutes'')]
   \<and> (0::nat) < 1
   \<and> (\<exists>r. extract_file_links (Accepted meeting_example) = Inr r \<and> 1 < length r
         \<and> (\<exists>k<length (file_link_matches meeting_example).
               file_link_matches meeting_example ! k = r ! 0
               \<and> (\<forall>l<length (file_link_matches meeting_example).
                     file_link_matches meeting_example ! l = r ! 1 \<longrightarrow> k < l)))
   \<and> length (file_link_matches meeting_example) = 3"
proof -
  from extract_file_links_first_seen [of meeting_example] obtain r where
    r: "extract_file_links (Accepted meeting_example) = Inr r"
    and ord: "\<forall>i j. i < j \<and> j < length r \<longrightarrow>
             (\<exists>k<length (file_link_matches meeting_example).
                file_link_matches meeting_example ! k = r ! i
                \<and> (\<forall>l<length (file_link_matches meeting_example).
                      file_link_matches meeting_example ! l = r ! j \<longrightarrow> k < l))"
    by blast
  have "r = [(ustr ''https://www.joplinmo.org/AgendaCenter/ViewFile/Agenda/_05012023-501'', ustr ''agenda''),
          (ustr ''https://www.joplinmo.org/AgendaCenter/ViewFile/Minutes/_05012023-501'', ustr ''minutes'')]"
    using r by (simp add: meeting_example_links)
  then have len: "1 < length r" by simp
  have a: "(0::nat) < 1" by simp
  from ord a len
  have "\<exists>k<length (file_link_matches meeting_example).
               file_link_matches meeting_example ! k = r ! 0
               \<and> (\<forall>l<length (file_link_matches meeting_example).
                     file_link_matches meeting_example ! l = r ! 1 \<longrightarrow> k < l)"
    by blast
  with r len have "\<exists>r. extract_file_links (Accepted meeting_example) = Inr r \<and> 1 < length r
         \<and> (\<exists>k<length (file_link_matches meeting_example).
               file_link_matches meeting_example ! k = r ! 0
               \<and> (\<forall>l<length (file_link_matches meeting_example).
                     file_link_matches meeting_example ! l = r ! 1 \<longrightarrow> k < l))"
    by blast
  then show ?thesis using meeting_example_links a by (simp add: meeting_example_matches)
qed

lemma sublist_trans: "sublist a b \<Longrightarrow> sublist b c \<Longrightarrow> sublist a c"
  by (rule sublist_order.order_trans)

lemma viewfile_agenda_segment:
  assumes "sublist (ustr ''/viewfile/agenda/'') s" shows "sublist (ustr ''/agenda/'') s"
proof -
  have "sublist (ustr ''/agenda/'') (ustr ''/viewfile/agenda/'')"
    by (simp add: ustr_def sublist_Cons_right)
  then show ?thesis using assms by (rule sublist_trans)
qed

lemma viewfile_minutes_segment:
  assumes "sublist (ustr ''/viewfile/minutes/'') s" shows "sublist (ustr ''/minutes/'') s"
proof -
  have "sublist (ustr ''/minutes/'') (ustr ''/viewfile/minutes/'')"
    by (simp add: ustr_def sublist_Cons_right)
  then show ?thesis using assms by (rule sublist_trans)
qed

lemma viewfile_packet_segment:
  assumes "sublist (ustr ''/viewfile/packet/'') s" shows "sublist (ustr ''/packet/'') s"
proof -
  have "sublist (ustr ''/packet/'') (ustr ''/viewfile/packet/'')"
    by (simp add: ustr_def sublist_Cons_right)
  then show ?thesis using assms by (rule sublist_trans)
qed

lemma direct_type_segments:
  "direct_type url =
     (if sublist (ustr ''/agenda/'') (lower url) then ustr ''agenda''
      else if sublist (ustr ''/minutes/'') (lower url) then ustr ''minutes''
      else if sublist (ustr ''/packet/'') (lower url) then ustr ''packet''
      else ustr ''other'')"
  using viewfile_agenda_segment [of "lower url"] viewfile_minutes_segment [of "lower url"]
    viewfile_packet_segment [of "lower url"]
  by (auto simp: direct_type_def)

text \<open>
  Claim C2. A link whose absolute URL ends, in lower case, with one of the document
  extensions gets its type from the branch for direct extensions, which amounts to
  looking for the segments \<^verbatim>\<open>/agenda/\<close>, \<^verbatim>\<open>/minutes/\<close>, \<^verbatim>\<open>/packet/\<close> in this order
  and answering \<^verbatim>\<open>other\<close> without them; the ViewFile branch has no say. In particular
  this holds for a URL that ends in \<^verbatim>\<open>.pdf\<close> and contains \<^verbatim>\<open>/viewfile/packet/\<close>.
\<close>

theorem extension_branch_first:
  "(has_extension (absolute_url href) \<longrightarrow>
      classify_link href =
        Some (absolute_url href,
              if sublist (ustr ''/agenda/'') (lower (absolute_url href)) then ustr ''agenda''
              else if sublist (ustr ''/minutes/'') (lower (absolute_url href)) then ustr ''minutes''
              else if sublist (ustr ''/packet/'') (lower (absolute_url href)) then ustr ''packet''
              else ustr ''other''))
   \<and> (suffix (ustr ''.pdf'') (lower (absolute_url href))
        \<and> sublist (ustr ''/viewfile/packet/'') (lower (absolute_url href)) \<longrightarrow>
      classify_link href =
        Some (absolute_url href,
              if sublist (ustr ''/agenda/'') (lower (absolute_url href)) then ustr ''agenda''
              else if sublist (ustr ''/minutes/'') (lower (absolute_url href)) then ustr ''minutes''
              else ustr ''packet''))"
proof (intro conjI impI)
  assume "has_extension (absolute_url href)"
  then show "classify_link href =
        Some (absolute_url href,
              if sublist (ustr ''/agenda/'') (lower (absolute_url href)) then ustr ''agenda''
              else if sublist (ustr ''/minutes/'') (lower (absolute_url href)) then ustr ''minutes''
              else if sublist (ustr ''/packet/'') (lower (absolute_url href)) then ustr ''packet''
              else ustr ''other'')"
    by (simp add: classify_link_def direct_type_segments)
next
  assume a: "suffix (ustr ''.pdf'') (lower (absolute_url href))
        \<and> sublist (ustr ''/viewfile/packet/'') (lower (absolute_url href))"
  then have "has_extension (absolute_url href)"
    by (simp add: has_extension_def EXTENSIONS_def)
  moreover have "sublist (ustr ''/packet/'') (lower (absolute_url href))"
    using a by (simp add: viewfile_packet_segment)
  ultimately show "classify_link href =
        Some (absolute_url href,
              if sublist (ustr ''/agenda/'') (lower (absolute_url href)) then ustr ''agenda''
              else if sublist (ustr ''/minutes/'') (lower (absolute_url href)) then ustr ''minutes''
              else ustr ''packet'')"
    by (simp add: classify_link_def direct_type_segments)
qed

lemma overlap_url: "absolute_url overlap_href = ustr ''https://www.joplinmo.org/AgendaCenter/ViewFile/Packet/Minutes/501.PDF''"
  by (simp add: overlap_href_def absolute_url_def BASE_URL_def ustr_def)

lemma overlap_lower: "lower (absolute_url overlap_href) = ustr ''https://www.joplinmo.org/agendacenter/viewfile/packet/minutes/501.pdf''"
  by (simp add: overlap_url) (simp add: text_eval)

theorem extension_branch_first_witness:
  "has_extension (absolute_url overlap_href)
   \<and> suffix (ustr ''.pdf'') (lower (absolute_url overlap_href))
   \<and> sublist (ustr ''/viewfile/packet/'') (lower (absolute_url overlap_href))
   \<and> classify_link overlap_href = Some (absolute_url overlap_href, ustr ''minutes'')
   \<and> viewfile_type (absolute_url overlap_href) = Some (ustr ''packet'')"
proof -
  have s: "suffix (ustr ''.pdf'') (lower (absolute_url overlap_href))"
    by (simp add: overlap_lower) (simp add: ustr_def suffix_to_prefix)
  then have h: "has_extension (absolute_url overlap_href)"
    by (simp add: has_extension_def EXTENSIONS_def)
  have p: "sublist (ustr ''/viewfile/packet/'') (lower (absolute_url overlap_href))"
    by (simp add: overlap_lower) (simp add: ustr_def sublist_Cons_right)
  have na: "\<not> sublist (ustr ''/agenda/'') (lower (absolute_url overlap_href))"
    by (simp add: overlap_lower) (simp add: ustr_def sublist_Cons_right)
  have m: "sublist (ustr ''/minutes/'') (lower (absolute_url overlap_href))"
    by (simp add: overlap_lower) (simp add: ustr_def sublist_Cons_right)
  have v: "viewfile_type (absolute_url overlap_href) = Some (ustr ''packet'')"
    by (simp add: overlap_url) (simp add: viewfile_type_def text_eval sublist_Cons_right)
  from extension_branch_first [of overlap_href] s p na m
  have "classify_link overlap_href = Some (absolute_url overlap_href, ustr ''minutes'')"
    by simp
  then show ?thesis using s h p v by blast
qed

text \<open>
  Claim C3, evaluated on a link without a query string whose path holds the text
  \<^verbatim>\<open>packet=true\<close>: the ViewFile branch looks for \<^verbatim>\<open>packet=true\<close> in the whole URL, while
  the comment in the source and the claim speak of the query string. The link is
  classified as a packet.
\<close>

theorem packet_flag_outside_query:
  "63 \<notin> set (absolute_url (ustr ''/AgendaCenter/ViewFile/Agenda/packet=true-501''))
   \<and> \<not> has_extension (absolute_url (ustr ''/AgendaCenter/ViewFile/Agenda/packet=true-501''))
   \<and> sublist (ustr ''/viewfile/agenda/'')
        (lower (takeWhile (\<lambda>c. c \<noteq> 63) (absolute_url (ustr ''/AgendaCenter/ViewFile/Agenda/packet=true-501''))))
   \<and> classify_link (ustr ''/AgendaCenter/ViewFile/Agenda/packet=true-501'')
       = Some (ustr ''https://www.joplinmo.org/AgendaCenter/ViewFile/Agenda/packet=true-501'', ustr ''packet'')"
  by (simp add: link_eval text_eval)

subsection \<open>Meeting dates\<close>


lemma scan_texts_no_match:
  "(\<forall>s\<in>set ts. re_search date_at s = None) \<Longrightarrow> scan_texts ts = Inr []"
  by (induction ts) auto



lemma long_s_search:
  "re_search date_at (ustr ''Augu'' @ 383 # ustr ''t 1, 2023'') = Some (ustr ''Augu'' @ 383 # ustr ''t'', ustr ''1'', ustr ''2023'')"
  by (simp add: date_eval text_eval)

lemma long_s_format:
  "format_date (ustr ''Augu'' @ 383 # ustr ''t'', ustr ''1'', ustr ''2023'') = Inl KeyError"
  by (simp add: date_eval text_eval)

lemma ic_match_lower_ascii:
  "97 \<le> p \<Longrightarrow> p \<le> 122 \<Longrightarrow> c < 128 \<Longrightarrow> ic_match p c \<Longrightarrow> lower_cp c = [p]"
  by (auto simp: ic_match_def sre_lower_def lower_cp_def split: if_splits)

lemma ic_match_title_ascii:
  "65 \<le> p \<Longrightarrow> p \<le> 90 \<Longrightarrow> c < 128 \<Longrightarrow> ic_match p c \<Longrightarrow> title_cp c = [p]"
  by (auto simp: ic_match_def sre_lower_def title_cp_def split: if_splits)

lemma lower_ascii_word:
  "list_all2 ic_match ps cs \<Longrightarrow> (\<forall>p\<in>set ps. 97 \<le> p \<and> p \<le> 122) \<Longrightarrow> (\<forall>c\<in>set cs. c < 128) \<Longrightarrow>
     lower cs = ps"
  by (induction rule: list_all2_induct) (auto simp: lower_def ic_match_lower_ascii)

lemma capitalize_ascii_word:
  assumes "list_all2 ic_match (p # ps) m" "65 \<le> p" "p \<le> 90"
    "\<forall>q\<in>set ps. 97 \<le> q \<and> q \<le> 122" "\<forall>c\<in>set m. c < 128"
  shows "capitalize m = p # ps"
proof -
  from assms(1) obtain c cs where m: "m = c # cs" "ic_match p c" "list_all2 ic_match ps cs"
    by (auto simp: list_all2_Cons1)
  have "title_cp c = [p]" using assms(2,3,5) m(1,2) by (simp add: ic_match_title_ascii)
  moreover have "lower cs = ps" using m(1,3) assms(4,5) by (simp add: lower_ascii_word)
  ultimately show ?thesis using m(1) by (simp add: capitalize_def)
qed

lemma month_shape:
  assumes "i < 12"
  shows "\<exists>p ps. month_regex ! i = p # ps \<and> 65 \<le> p \<and> p \<le> 90 \<and> (\<forall>q\<in>set ps. 97 \<le> q \<and> q \<le> 122)
     \<and> map_of month_num (p # ps) = Some (snd (month_num ! i))
     \<and> snd (month_num ! i) = [48 + Suc i div 10, 48 + Suc i mod 10]"
proof -
  have "i = 0 \<or> i = 1 \<or> i = 2 \<or> i = 3 \<or> i = 4 \<or> i = 5 \<or> i = 6 \<or> i = 7 \<or> i = 8 \<or> i = 9
      \<or> i = 10 \<or> i = 11"
    using assms by arith
  then show ?thesis
    by (elim disjE) (simp_all add: month_regex_def month_num_def ustr_def)
qed

lemma month_lookup_ascii:
  assumes "i < 12" "list_all2 ic_match (month_regex ! i) m" "\<forall>c\<in>set m. c < 128"
  shows "map_of month_num (capitalize m) = Some (snd (month_num ! i))"
proof -
  from month_shape [OF assms(1)] obtain p ps where s: "month_regex ! i = p # ps" "65 \<le> p" "p \<le> 90"
    "\<forall>q\<in>set ps. 97 \<le> q \<and> q \<le> 122" "map_of month_num (p # ps) = Some (snd (month_num ! i))"
    by blast
  have "capitalize m = p # ps"
    using capitalize_ascii_word [of p ps m] assms(2,3) s(1-4) by simp
  then show ?thesis using s(5) by simp
qed

lemma is_digit_ge: "is_digit c \<Longrightarrow> 48 \<le> c"
  by (auto simp: is_digit_def nd_zeros_def)

lemma zfill_one_digit: "is_digit c \<Longrightarrow> zfill 2 [c] = [48, c]"
  using is_digit_ge [of c] by (auto simp: zfill_def numeral_2_eq_2)

lemma zfill_two: "length d = 2 \<Longrightarrow> zfill 2 d = d"
  by (simp add: zfill_def)

lemma re_search_Some: "re_search f s = Some g \<Longrightarrow> \<exists>s'. suffix s' s \<and> f s' = Some g"
proof (induction s)
  case Nil
  then show ?case by auto
next
  case (Cons c cs)
  show ?case
  proof (cases "f (c # cs)")
    case None
    with Cons obtain s' where "suffix s' cs" "f s' = Some g" by auto
    then show ?thesis by (meson suffix_ConsI)
  next
    case (Some a)
    with Cons.prems show ?thesis by auto
  qed
qed

lemma date_at_groups:
  assumes "date_at s = Some (m, d, y)"
  shows "(\<exists>i<12. list_all2 ic_match (month_regex ! i) m) \<and> (length d = 1 \<or> length d = 2)
    \<and> list_all is_digit d \<and> length y = 4 \<and> list_all is_digit y"
proof -
  from assms obtain p where p: "find (\<lambda>p. ic_prefix p s) month_regex = Some p"
    by (auto simp: date_at_def split: option.splits)
  then obtain i where i: "i < length month_regex" "ic_prefix (month_regex ! i) s" "p = month_regex ! i"
    by (auto simp: find_Some_iff)
  have len: "length month_regex = 12" by (simp add: month_regex_def)
  let ?r2 = "dropWhile is_space (drop (length p) s)"
  from assms p have m: "m = take (length p) s" and d: "d = takeWhile is_digit (take 2 ?r2)"
    and dne: "d \<noteq> []" and y: "length y = 4" "list_all is_digit y"
    by (auto simp: date_at_def Let_def split: if_splits)
  have "list_all2 ic_match (month_regex ! i) m" using i m by (simp add: ic_prefix_def)
  moreover have "length d \<le> 2"
    using length_takeWhile_le [of is_digit "take 2 ?r2"] d by simp
  moreover have "list_all is_digit d"
    using d by (auto simp: list_all_iff dest: set_takeWhileD)
  ultimately show ?thesis using i(1) len dne y
    by (cases d) (auto simp: le_Suc_eq numeral_2_eq_2)
qed

lemma format_date_ascii:
  assumes "i < 12" "list_all2 ic_match (month_regex ! i) m" "\<forall>c\<in>set m. c < 128"
  shows "format_date (m, d, y) = Inr (snd (month_num ! i) @ zfill 2 d @ y)"
  using month_lookup_ascii [OF assms] by (simp add: format_date_def)

lemma zfill_day: "(length d = 1 \<or> length d = 2) \<Longrightarrow> list_all is_digit d \<Longrightarrow> length (zfill 2 d) = 2"
  by (cases d) (auto simp: zfill_two zfill_one_digit)

lemma lookup_total_ascii:
  assumes "re_search date_at t = Some (m, d, y)" "\<forall>c\<in>set m. c < 128"
  shows "\<exists>r. format_date (m, d, y) = Inr r \<and> length r = 8"
proof -
  from re_search_Some [OF assms(1)] obtain s where "date_at s = Some (m, d, y)" by blast
  from date_at_groups [OF this] obtain i where i: "i < 12" "list_all2 ic_match (month_regex ! i) m"
    and d: "length d = 1 \<or> length d = 2" "list_all is_digit d" and y: "length y = 4" by blast
  have "length (snd (month_num ! i)) = 2" using month_shape [OF i(1)] by auto
  then show ?thesis
    using format_date_ascii [OF i assms(2), of d y] zfill_day [OF d] y by simp
qed


lemma agenda_no_date: "re_search date_at (ustr ''Agenda'') = None"
  by (simp add: date_eval text_eval)

lemma council_no_date: "re_search date_at (ustr ''City Council'') = None"
  by (simp add: date_eval text_eval)




text \<open>
  Claim C10, evaluated on the fragment \<^verbatim>\<open>Augu\<close>, U+017F, \<^verbatim>\<open>t 1, 2023\<close>. With
  \<^verbatim>\<open>re.IGNORECASE\<close> the long s matches the letter s of the pattern, so the month group is
  the text as spelt. \<^verbatim>\<open>capitalize\<close> leaves the long s as it is, the result is no key of
  the month table, and the lookup raises \<^verbatim>\<open>KeyError\<close>.
\<close>

theorem month_lookup_raises_on_long_s:
  "re_search date_at (ustr ''Augu'' @ 383 # ustr ''t 1, 2023'')
     = Some (ustr ''Augu'' @ 383 # ustr ''t'', ustr ''1'', ustr ''2023'')
   \<and> capitalize (ustr ''Augu'' @ 383 # ustr ''t'') = ustr ''Augu'' @ 383 # ustr ''t''
   \<and> map_of month_num (ustr ''Augu'' @ 383 # ustr ''t'') = None
   \<and> parse_meeting_date (Accepted long_s_page) = Inl KeyError"
proof (intro conjI)
  show "re_search date_at (ustr ''Augu'' @ 383 # ustr ''t 1, 2023'')
     = Some (ustr ''Augu'' @ 383 # ustr ''t'', ustr ''1'', ustr ''2023'')"
    by (rule long_s_search)
  show "capitalize (ustr ''Augu'' @ 383 # ustr ''t'') = ustr ''Augu'' @ 383 # ustr ''t''"
    by (simp add: text_eval)
  show "map_of month_num (ustr ''Augu'' @ 383 # ustr ''t'') = None"
    by (simp add: month_num_def ustr_def)
  show "parse_meeting_date (Accepted long_s_page) = Inl KeyError"
    using long_s_search long_s_format
    by (simp add: long_s_page_def parse_meeting_date_def BeautifulSoup_def possible_texts_def)
qed

subsection \<open>File names\<close>

lemma takeWhile_upto: "x \<notin> set xs \<Longrightarrow> takeWhile (\<lambda>c. c \<noteq> x) (xs @ x # ys) = xs"
  by (induction xs) auto

lemma path_suffix_split:
  assumes "path_name url = stem @ 46 # rest" "46 \<notin> set rest"
  shows "path_suffix url = (if stem \<noteq> [] \<and> rest \<noteq> [] then 46 # rest else [])"
proof -
  have "takeWhile (\<lambda>c. c \<noteq> 46) (rev rest @ 46 # rev stem) = rev rest"
    using assms(2) takeWhile_upto [of 46 "rev rest" "rev stem"] by simp
  then show ?thesis
    using assms(1) by (auto simp: path_suffix_def Let_def)
qed

lemma path_suffix_no_dot: "46 \<notin> set (path_name url) \<Longrightarrow> path_suffix url = []"
  by (simp add: path_suffix_def Let_def)

text \<open>
  Claim C7. The file name is a function of the date or fallback string, the type tag and
  the URL alone: it is the date string, an underscore, the type tag and the extension.
  The extension is the part of the URL's last path component from its last dot on, when
  that dot is neither the first nor the last character of the component, and
  \<^verbatim>\<open>.pdf\<close> otherwise.
\<close>

theorem build_filename_form:
  "(\<forall>stem rest. path_name url = stem @ 46 # rest \<and> stem \<noteq> [] \<and> rest \<noteq> [] \<and> 46 \<notin> set rest \<longrightarrow>
       build_filename date_str ftype url = date_str @ ustr ''_'' @ ftype @ 46 # rest)
   \<and> ((\<nexists>stem rest. path_name url = stem @ 46 # rest \<and> stem \<noteq> [] \<and> rest \<noteq> [] \<and> 46 \<notin> set rest) \<longrightarrow>
       build_filename date_str ftype url = date_str @ ustr ''_'' @ ftype @ ustr ''.pdf'')"
proof (intro conjI allI impI)
  fix stem rest
  assume "path_name url = stem @ 46 # rest \<and> stem \<noteq> [] \<and> rest \<noteq> [] \<and> 46 \<notin> set rest"
  then show "build_filename date_str ftype url = date_str @ ustr ''_'' @ ftype @ 46 # rest"
    using path_suffix_split [of url stem rest] by (simp add: build_filename_def)
next
  assume none: "\<nexists>stem rest. path_name url = stem @ 46 # rest \<and> stem \<noteq> [] \<and> rest \<noteq> [] \<and> 46 \<notin> set rest"
  have "path_suffix url = []"
  proof (cases "46 \<in> set (path_name url)")
    case False
    then show ?thesis by (rule path_suffix_no_dot)
  next
    case True
    then obtain stem rest where s: "path_name url = stem @ 46 # rest" "46 \<notin> set rest"
      using split_list_last by fastforce
    with none have "\<not> (stem \<noteq> [] \<and> rest \<noteq> [])" by blast
    then show ?thesis using path_suffix_split [OF s] by simp
  qed
  then show "build_filename date_str ftype url = date_str @ ustr ''_'' @ ftype @ ustr ''.pdf''"
    by (simp add: build_filename_def)
qed

lemma docx_url_name: "path_name (ustr ''https://www.joplinmo.org/docs/agenda/a.docx'') = ustr ''a.docx''"
  by (simp add: path_eval ustr_def)

lemma packet_url_name: "path_name (ustr ''https://www.joplinmo.org/AgendaCenter/ViewFile/Packet/501?packet=true'') = ustr ''501?packet=true''"
  by (simp add: path_eval ustr_def)

theorem build_filename_form_witness:
  "path_name (ustr ''https://www.joplinmo.org/docs/agenda/a.docx'') = ustr ''a'' @ 46 # ustr ''docx''
   \<and> ustr ''a'' \<noteq> [] \<and> ustr ''docx'' \<noteq> [] \<and> 46 \<notin> set (ustr ''docx'')
   \<and> build_filename (ustr ''05012023'') (ustr ''agenda'') (ustr ''https://www.joplinmo.org/docs/agenda/a.docx'')
       = ustr ''05012023_agenda.docx''
   \<and> 46 \<notin> set (path_name (ustr ''https://www.joplinmo.org/AgendaCenter/ViewFile/Packet/501?packet=true''))
   \<and> build_filename (ustr ''id777'') (ustr ''packet'')
        (ustr ''https://www.joplinmo.org/AgendaCenter/ViewFile/Packet/501?packet=true'')
       = ustr ''id777_packet.pdf''"
proof -
  let ?u1 = "ustr ''https://www.joplinmo.org/docs/agenda/a.docx''"
  let ?u2 = "ustr ''https://www.joplinmo.org/AgendaCenter/ViewFile/Packet/501?packet=true''"
  have h1: "path_name ?u1 = ustr ''a'' @ 46 # ustr ''docx'' \<and> ustr ''a'' \<noteq> [] \<and> ustr ''docx'' \<noteq> []
      \<and> 46 \<notin> set (ustr ''docx'')"
    by (simp add: docx_url_name) (simp add: ustr_def)
  have h2: "46 \<notin> set (path_name ?u2)"
    by (simp add: packet_url_name) (simp add: ustr_def)
  then have h2': "\<nexists>stem rest. path_name ?u2 = stem @ 46 # rest \<and> stem \<noteq> [] \<and> rest \<noteq> [] \<and> 46 \<notin> set rest"
    by auto
  from build_filename_form [of ?u1 "ustr ''05012023''" "ustr ''agenda''"] h1
  have "build_filename (ustr ''05012023'') (ustr ''agenda'') ?u1
      = ustr ''05012023'' @ ustr ''_'' @ ustr ''agenda'' @ 46 # ustr ''docx''" by blast
  then have r1: "build_filename (ustr ''05012023'') (ustr ''agenda'') ?u1 = ustr ''05012023_agenda.docx''"
    by (simp add: ustr_def)
  from build_filename_form [of ?u2 "ustr ''id777''" "ustr ''packet''"] h2'
  have "build_filename (ustr ''id777'') (ustr ''packet'') ?u2
      = ustr ''id777'' @ ustr ''_'' @ ustr ''packet'' @ ustr ''.pdf''" by blast
  then have r2: "build_filename (ustr ''id777'') (ustr ''packet'') ?u2 = ustr ''id777_packet.pdf''"
    by (simp add: ustr_def)
  show ?thesis using h1 h2 r1 r2 by blast
qed

subsection \<open>Existing files are left alone\<close>

lemma untouched_refl: "untouched p st st"
  by (simp add: untouched_def)

lemma untouched_trans: "untouched p st st1 \<Longrightarrow> untouched p st1 st2 \<Longrightarrow> untouched p st st2"
  by (auto simp: untouched_def)

lemma mkdir_from_keeps: "f p \<noteq> None \<Longrightarrow> snd (mkdir_from q cs f) p = f p"
proof (induction cs arbitrary: q f)
  case Nil
  then show ?case by simp
next
  case (Cons c cs)
  show ?case
  proof (cases "f (q @ [c])")
    case None
    with Cons.prems have ne: "p \<noteq> q @ [c]" by auto
    then have "(f(q @ [c] \<mapsto> Dir)) p \<noteq> None" using Cons.prems by simp
    then have "snd (mkdir_from (q @ [c]) cs (f(q @ [c] \<mapsto> Dir))) p = (f(q @ [c] \<mapsto> Dir)) p"
      by (rule Cons.IH)
    then show ?thesis using ne None by simp
  next
    case (Some a)
    then show ?thesis using Cons by (cases a) auto
  qed
qed

lemma mkdir_parents_keeps: "f p \<noteq> None \<Longrightarrow> mkdir_parents q f = (e, f') \<Longrightarrow> f' p = f p"
  using mkdir_from_keeps [of f p "[]" q] by (simp add: mkdir_parents_def)

lemma download_untouched:
  assumes "fs st p \<noteq> None" "dst \<noteq> p"
  shows "untouched p st (snd (download W url dst st))"
proof (cases "mkdir_parents (butlast dst) (fs st)")
  case (Pair e f)
  then have f: "f p = fs st p" using mkdir_parents_keeps [of "fs st" p "butlast dst" e f] assms(1) by simp
  show ?thesis
  proof (cases e)
    case (Some a)
    then show ?thesis using Pair f by (simp add: download_def untouched_def)
  next
    case None
    show ?thesis
    proof (cases "transfer W (trace st) url")
      case Refused
      then show ?thesis using Pair None f assms(2) by (simp add: download_def untouched_def Let_def)
    next
      case (Broken bs)
      then show ?thesis using Pair None f assms(2) by (simp add: download_def untouched_def Let_def)
    next
      case (Complete bs)
      then show ?thesis using Pair None f assms(2) by (simp add: download_def untouched_def Let_def)
    qed
  qed
qed

lemma process_link_present:
  "fs st (truediv yd (build_filename d t url)) \<noteq> None \<Longrightarrow> process_link W yd d (url, t) st = (None, st)"
  by (simp add: process_link_def path_exists_def)

lemma process_link_stat_raises:
  "fs st (truediv yd (build_filename d t url)) = None \<Longrightarrow> stat_raises W (truediv yd (build_filename d t url)) \<Longrightarrow>
     process_link W yd d (url, t) st = (Some OSError, st)"
  by (simp add: process_link_def path_exists_def)

lemma process_link_absent:
  "fs st (truediv yd (build_filename d t url)) = None \<Longrightarrow> \<not> stat_raises W (truediv yd (build_filename d t url)) \<Longrightarrow>
     process_link W yd d (url, t) st =
       (case download W url (truediv yd (build_filename d t url)) st of
          (None, st') \<Rightarrow> (None, st'\<lparr>trace := trace st' @ [Sleep]\<rparr>)
        | (Some e, st') \<Rightarrow> (None, st'))"
  by (simp add: process_link_def path_exists_def)

lemma process_link_untouched:
  assumes "fs st p \<noteq> None"
  shows "untouched p st (snd (process_link W yd d link st))"
proof (cases link)
  case (Pair url t)
  let ?dst = "truediv yd (build_filename d t url)"
  show ?thesis
  proof (cases "fs st ?dst = None")
    case False
    then show ?thesis using Pair by (simp add: process_link_present untouched_refl)
  next
    case True
    show ?thesis
    proof (cases "stat_raises W ?dst")
      case True
      with \<open>fs st ?dst = None\<close> show ?thesis using Pair by (simp add: process_link_stat_raises untouched_refl)
    next
      case False
      from \<open>fs st ?dst = None\<close> assms have ne: "?dst \<noteq> p" by auto
      obtain e st' where dl: "download W url ?dst st = (e, st')" by (cases "download W url ?dst st")
      from download_untouched [OF assms ne, of W url] dl have u: "untouched p st st'" by simp
      show ?thesis
        using Pair \<open>fs st ?dst = None\<close> False dl u
        by (cases e) (auto simp: process_link_absent untouched_def)
    qed
  qed
qed

lemma untouched_fs: "untouched p st st' \<Longrightarrow> fs st p \<noteq> None \<Longrightarrow> fs st' p \<noteq> None"
  by (simp add: untouched_def)

lemma links_loop_untouched:
  "fs st p \<noteq> None \<Longrightarrow> untouched p st (snd (links_loop W yd d links st))"
proof (induction links arbitrary: st)
  case Nil
  then show ?case by (simp add: untouched_refl)
next
  case (Cons l ls)
  obtain e st1 where pl: "process_link W yd d l st = (e, st1)" by (cases "process_link W yd d l st")
  have 1: "untouched p st st1" using process_link_untouched [OF Cons.prems, of W yd d l] pl by simp
  show ?case
  proof (cases e)
    case None
    have "untouched p st1 (snd (links_loop W yd d ls st1))"
      using untouched_fs [OF 1 Cons.prems] by (rule Cons.IH)
    with 1 have "untouched p st (snd (links_loop W yd d ls st1))" by (rule untouched_trans)
    then show ?thesis using pl None by simp
  next
    case (Some a)
    then show ?thesis using pl 1 by simp
  qed
qed

lemma process_page_untouched:
  assumes "fs st p \<noteq> None"
  shows "untouched p st (snd (process_page W yd mid m st))"
proof (cases "parse_meeting_date m")
  case (Inl e)
  then show ?thesis by (simp add: process_page_def untouched_refl)
next
  case (Inr d)
  show ?thesis
  proof (cases "extract_file_links m")
    case (Inl e)
    then show ?thesis using Inr by (simp add: process_page_def untouched_refl)
  next
    case (Inr links)
    then show ?thesis
      using \<open>parse_meeting_date m = Inr d\<close> links_loop_untouched [OF assms]
      by (simp add: process_page_def)
  qed
qed

lemma fetch_untouched: "untouched p st (snd (fetch W url st))"
  by (simp add: fetch_def untouched_def)

lemma fetch_fs: "fs (snd (fetch W url st)) = fs st"
  by (simp add: fetch_def)

lemma process_meeting_untouched:
  assumes "fs st p \<noteq> None"
  shows "untouched p st (snd (process_meeting W y yd mid st))"
proof -
  obtain r st1 where f: "fetch W (meeting_url mid y) st = (r, st1)" by (cases "fetch W (meeting_url mid y) st")
  have 1: "untouched p st st1" using fetch_untouched [of p st W "meeting_url mid y"] f by simp
  have ne: "fs st1 p \<noteq> None" using untouched_fs [OF 1 assms] .
  show ?thesis
  proof (cases r)
    case (Inl e)
    then show ?thesis using f 1 by (simp add: process_meeting_def)
  next
    case (Inr h)
    then show ?thesis
      using f untouched_trans [OF 1 process_page_untouched [OF ne, of W yd mid h]]
      by (simp add: process_meeting_def)
  qed
qed

lemma meetings_loop_untouched:
  "fs st p \<noteq> None \<Longrightarrow> untouched p st (snd (meetings_loop W y yd mids st))"
proof (induction mids arbitrary: st)
  case Nil
  then show ?case by (simp add: untouched_refl)
next
  case (Cons m ms)
  obtain e st1 where pm: "process_meeting W y yd m st = (e, st1)" by (cases "process_meeting W y yd m st")
  have 1: "untouched p st st1" using process_meeting_untouched [OF Cons.prems, of W y yd m] pm by simp
  show ?case
  proof (cases e)
    case None
    have "untouched p st1 (snd (meetings_loop W y yd ms st1))"
      using untouched_fs [OF 1 Cons.prems] by (rule Cons.IH)
    with 1 have "untouched p st (snd (meetings_loop W y yd ms st1))" by (rule untouched_trans)
    then show ?thesis using pm None by simp
  next
    case (Some a)
    then show ?thesis using pm 1 by simp
  qed
qed

lemma untouched_mkdir:
  "fs st p \<noteq> None \<Longrightarrow> mkdir_parents q (fs st) = (e, f) \<Longrightarrow> untouched p st (st\<lparr>fs := f\<rparr>)"
  using mkdir_parents_keeps [of "fs st" p q e f] by (simp add: untouched_def)

lemma scrape_year_untouched:
  assumes "fs st p \<noteq> None"
  shows "untouched p st (snd (scrape_year W y root st))"
proof -
  obtain r st1 where f: "fetch W (LIST_URL_TMPL y) st = (r, st1)" by (cases "fetch W (LIST_URL_TMPL y) st")
  have 1: "untouched p st st1" using fetch_untouched [of p st W "LIST_URL_TMPL y"] f by simp
  have ne: "fs st1 p \<noteq> None" using untouched_fs [OF 1 assms] .
  show ?thesis
  proof (cases r)
    case (Inl e)
    then show ?thesis using f 1 by (simp add: scrape_year_def)
  next
    case (Inr m)
    show ?thesis
    proof (cases "extract_meeting_ids m")
      case (Inl e)
      then show ?thesis using f \<open>r = Inr m\<close> 1 by (simp add: scrape_year_def)
    next
      case ids: (Inr mids)
      show ?thesis
      proof (cases "mids = []")
        case True
        then show ?thesis using f \<open>r = Inr m\<close> ids 1 by (simp add: scrape_year_def)
      next
        case False
        obtain e g where mk: "mkdir_parents (truediv root (py_str y)) (fs st1) = (e, g)"
          by (cases "mkdir_parents (truediv root (py_str y)) (fs st1)")
        have 2: "untouched p st1 (st1\<lparr>fs := g\<rparr>)" using ne mk by (rule untouched_mkdir)
        have 12: "untouched p st (st1\<lparr>fs := g\<rparr>)" using 1 2 by (rule untouched_trans)
        show ?thesis
        proof (cases e)
          case None
          have "untouched p (st1\<lparr>fs := g\<rparr>)
            (snd (meetings_loop W y (truediv root (py_str y)) mids (st1\<lparr>fs := g\<rparr>)))"
            using untouched_fs [OF 2 ne] by (rule meetings_loop_untouched)
          with 12 have "untouched p st
            (snd (meetings_loop W y (truediv root (py_str y)) mids (st1\<lparr>fs := g\<rparr>)))"
            by (rule untouched_trans)
          then show ?thesis using f \<open>r = Inr m\<close> ids False mk None
            by (simp add: scrape_year_def Let_def)
        next
          case (Some a)
          then show ?thesis using f \<open>r = Inr m\<close> ids False mk 12 by (simp add: scrape_year_def Let_def)
        qed
      qed
    qed
  qed
qed

lemma years_loop_untouched:
  "fs st p \<noteq> None \<Longrightarrow> untouched p st (snd (years_loop W root ys st))"
proof (induction ys arbitrary: st)
  case Nil
  then show ?case by (simp add: untouched_refl)
next
  case (Cons y ys)
  obtain e st1 where sy: "scrape_year W y root st = (e, st1)" by (cases "scrape_year W y root st")
  have 1: "untouched p st st1" using scrape_year_untouched [OF Cons.prems, of W y root] sy by simp
  show ?case
  proof (cases e)
    case None
    have "untouched p st1 (snd (years_loop W root ys st1))"
      using untouched_fs [OF 1 Cons.prems] by (rule Cons.IH)
    with 1 have "untouched p st (snd (years_loop W root ys st1))" by (rule untouched_trans)
    then show ?thesis using sy None by simp
  next
    case (Some a)
    then show ?thesis using sy 1 by simp
  qed
qed

text \<open>
  Claim C8. A file link whose destination exists is skipped: the loop body ends without
  an error and with the state as it was, so nothing is requested, downloaded or written. Over a whole run of
  \<^verbatim>\<open>main\<close>, a path that exists at the start keeps its content, and no download is
  started for it.
\<close>

theorem skip_if_exists:
  "(fs st (truediv year_dir (build_filename date_str ftype file_url)) \<noteq> None \<longrightarrow>
      process_link W year_dir date_str (file_url, ftype) st = (None, st))
   \<and> (fs st p \<noteq> None \<longrightarrow>
        fs (snd (main W st)) p = fs st p
        \<and> (\<exists>evs. trace (snd (main W st)) = trace st @ evs \<and> (\<forall>url. Stream url p \<notin> set evs)))"
proof (intro conjI impI)
  assume "fs st (truediv year_dir (build_filename date_str ftype file_url)) \<noteq> None"
  then show "process_link W year_dir date_str (file_url, ftype) st = (None, st)"
    by (rule process_link_present)
next
  assume "fs st p \<noteq> None"
  then have u: "untouched p st (snd (main W st))"
    unfolding main_def by (rule years_loop_untouched)
  then show "fs (snd (main W st)) p = fs st p" by (simp add: untouched_def)
  from u show "\<exists>evs. trace (snd (main W st)) = trace st @ evs \<and> (\<forall>url. Stream url p \<notin> set evs)"
    by (simp add: untouched_def)
qed

lemma year_dir_2022: "truediv (Path (ustr ''joplin_council_pdfs'')) (py_str 2022) = [ustr ''joplin_council_pdfs'', ustr ''2022'']"
  by (simp add: path_eval py_str.simps ustr_def)

lemma year_dir_2023: "truediv (Path (ustr ''joplin_council_pdfs'')) (py_str 2023) = [ustr ''joplin_council_pdfs'', ustr ''2023'']"
  by (simp add: path_eval py_str.simps ustr_def)

lemma kept_file_dst:
  "truediv (truediv (Path (ustr ''joplin_council_pdfs'')) (py_str 2023))
      (build_filename (ustr ''05012023'') (ustr ''agenda'')
         (ustr ''https://www.joplinmo.org/AgendaCenter/ViewFile/Agenda/_05012023-501'')) = kept_file"
  by (simp add: year_dir_2023) (simp add: path_eval kept_file_def ustr_def)

theorem skip_if_exists_witness:
  "fs seeded_state (truediv (truediv (Path (ustr ''joplin_council_pdfs'')) (py_str 2023))
      (build_filename (ustr ''05012023'') (ustr ''agenda'')
         (ustr ''https://www.joplinmo.org/AgendaCenter/ViewFile/Agenda/_05012023-501''))) \<noteq> None
   \<and> process_link year_2022_down (truediv (Path (ustr ''joplin_council_pdfs'')) (py_str 2023))
        (ustr ''05012023'')
        (ustr ''https://www.joplinmo.org/AgendaCenter/ViewFile/Agenda/_05012023-501'', ustr ''agenda'')
        seeded_state = (None, seeded_state)
   \<and> fs seeded_state kept_file \<noteq> None
   \<and> fs (snd (main year_2022_down seeded_state)) kept_file = fs seeded_state kept_file
   \<and> (\<exists>evs. trace (snd (main year_2022_down seeded_state)) = trace seeded_state @ evs
         \<and> (\<forall>url. Stream url kept_file \<notin> set evs))"
proof -
  have a: "fs seeded_state kept_file \<noteq> None" by (simp add: seeded_state_def)
  then have b: "fs seeded_state (truediv (truediv (Path (ustr ''joplin_council_pdfs'')) (py_str 2023))
      (build_filename (ustr ''05012023'') (ustr ''agenda'')
         (ustr ''https://www.joplinmo.org/AgendaCenter/ViewFile/Agenda/_05012023-501''))) \<noteq> None"
    by (simp add: kept_file_dst)
  from skip_if_exists [of seeded_state "truediv (Path (ustr ''joplin_council_pdfs'')) (py_str 2023)"
      "ustr ''05012023''" "ustr ''agenda''"
      "ustr ''https://www.joplinmo.org/AgendaCenter/ViewFile/Agenda/_05012023-501''" year_2022_down kept_file]
    a b
  show ?thesis by blast
qed

subsection \<open>The fallback identifier\<close>

lemma download_events:
  "\<exists>evs. trace (snd (download W url dst st)) = trace st @ evs \<and> (\<forall>u p. Stream u p \<in> set evs \<longrightarrow> p = dst)"
proof (cases "mkdir_parents (butlast dst) (fs st)")
  case (Pair e f)
  show ?thesis
  proof (cases e)
    case (Some a)
    then show ?thesis using Pair by (simp add: download_def)
  next
    case None
    show ?thesis
    proof (cases "transfer W (trace st) url")
      case Refused
      then show ?thesis using Pair None by (simp add: download_def Let_def)
    next
      case (Broken bs)
      then show ?thesis using Pair None by (simp add: download_def Let_def)
    next
      case (Complete bs)
      then show ?thesis using Pair None by (simp add: download_def Let_def)
    qed
  qed
qed

lemma download_issues:
  assumes "fst (mkdir_parents (butlast dst) (fs st)) = None"
  shows "trace (snd (download W url dst st)) = trace st @ [Stream url dst]"
proof (cases "mkdir_parents (butlast dst) (fs st)")
  case (Pair e f)
  with assms have e: "e = None" by simp
  show ?thesis
  proof (cases "transfer W (trace st) url")
    case Refused
    then show ?thesis using Pair e by (simp add: download_def Let_def)
  next
    case (Broken bs)
    then show ?thesis using Pair e by (simp add: download_def Let_def)
  next
    case (Complete bs)
    then show ?thesis using Pair e by (simp add: download_def Let_def)
  qed
qed

lemma process_link_events:
  "\<exists>evs. trace (snd (process_link W yd d (url, t) st)) = trace st @ evs
     \<and> (\<forall>u p. Stream u p \<in> set evs \<longrightarrow> p = truediv yd (build_filename d t url))"
proof (cases "fs st (truediv yd (build_filename d t url)) = None")
  case False
  then show ?thesis by (simp add: process_link_present)
next
  case True
  let ?dst = "truediv yd (build_filename d t url)"
  show ?thesis
  proof (cases "stat_raises W ?dst")
    case True
    with \<open>fs st ?dst = None\<close> show ?thesis by (simp add: process_link_stat_raises)
  next
    case False
    obtain e st' where dl: "download W url ?dst st = (e, st')" by (cases "download W url ?dst st")
    from download_events [of W url ?dst st] dl obtain evs where
      evs: "trace st' = trace st @ evs" "\<forall>u p. Stream u p \<in> set evs \<longrightarrow> p = ?dst" by auto
    show ?thesis
    proof (cases e)
      case None
      then have "trace (snd (process_link W yd d (url, t) st)) = trace st @ (evs @ [Sleep])"
        using \<open>fs st ?dst = None\<close> False dl evs(1) by (simp add: process_link_absent)
      moreover have "\<forall>u p. Stream u p \<in> set (evs @ [Sleep]) \<longrightarrow> p = ?dst" using evs(2) by simp
      ultimately show ?thesis by blast
    next
      case (Some a)
      then have "trace (snd (process_link W yd d (url, t) st)) = trace st @ evs"
        using \<open>fs st ?dst = None\<close> False dl evs(1) by (simp add: process_link_absent)
      then show ?thesis using evs(2) by blast
    qed
  qed
qed

lemma process_link_issues:
  assumes "fs st (truediv yd (build_filename d t url)) = None"
    "\<not> stat_raises W (truediv yd (build_filename d t url))"
    "fst (mkdir_parents (butlast (truediv yd (build_filename d t url))) (fs st)) = None"
  shows "\<exists>rest st'. process_link W yd d (url, t) st = (None, st')
     \<and> trace st' = trace st @ Stream url (truediv yd (build_filename d t url)) # rest"
proof -
  let ?dst = "truediv yd (build_filename d t url)"
  obtain e st1 where dl: "download W url ?dst st = (e, st1)" by (cases "download W url ?dst st")
  have tr: "trace st1 = trace st @ [Stream url ?dst]"
    using download_issues [OF assms(3), of W url] dl by simp
  show ?thesis
  proof (cases e)
    case None
    then have "process_link W yd d (url, t) st = (None, st1\<lparr>trace := trace st1 @ [Sleep]\<rparr>)"
      using assms(1,2) dl by (simp add: process_link_absent)
    moreover have "trace (st1\<lparr>trace := trace st1 @ [Sleep]\<rparr>) = trace st @ Stream url ?dst # [Sleep]"
      using tr by simp
    ultimately show ?thesis by blast
  next
    case (Some a)
    then have "process_link W yd d (url, t) st = (None, st1)"
      using assms(1,2) dl by (simp add: process_link_absent)
    moreover have "trace st1 = trace st @ Stream url ?dst # []" using tr by simp
    ultimately show ?thesis by blast
  qed
qed

lemma links_loop_events:
  "\<exists>evs. trace (snd (links_loop W yd d links st)) = trace st @ evs
     \<and> (\<forall>u p. Stream u p \<in> set evs \<longrightarrow> (\<exists>t url. p = truediv yd (build_filename d t url)))"
proof (induction links arbitrary: st)
  case Nil
  then show ?case by simp
next
  case (Cons l ls)
  obtain url t where l: "l = (url, t)" by (cases l)
  obtain e st1 where pl: "process_link W yd d (url, t) st = (e, st1)"
    by (cases "process_link W yd d (url, t) st")
  from process_link_events [of W yd d url t st] pl obtain e1 where
    e1: "trace st1 = trace st @ e1" "\<forall>u p. Stream u p \<in> set e1 \<longrightarrow> p = truediv yd (build_filename d t url)"
    by auto
  show ?case
  proof (cases e)
    case (Some a)
    then have "trace (snd (links_loop W yd d (l # ls) st)) = trace st @ e1"
      using l pl e1(1) by simp
    then show ?thesis using e1(2) by blast
  next
    case None
    from Cons.IH [of st1] obtain e2 where
      e2: "trace (snd (links_loop W yd d ls st1)) = trace st1 @ e2"
        "\<forall>u p. Stream u p \<in> set e2 \<longrightarrow> (\<exists>t url. p = truediv yd (build_filename d t url))"
      by blast
    have "trace (snd (links_loop W yd d (l # ls) st)) = trace st @ (e1 @ e2)"
      using l pl None e1(1) e2(1) by simp
    moreover have "\<forall>u p. Stream u p \<in> set (e1 @ e2) \<longrightarrow> (\<exists>t url. p = truediv yd (build_filename d t url))"
      using e1(2) e2(2) by auto
    ultimately show ?thesis by blast
  qed
qed

lemma links_loop_first:
  assumes "fs st (truediv yd (build_filename d t url)) = None"
    "\<not> stat_raises W (truediv yd (build_filename d t url))"
    "fst (mkdir_parents (butlast (truediv yd (build_filename d t url))) (fs st)) = None"
  shows "prefix (trace st @ [Stream url (truediv yd (build_filename d t url))])
           (trace (snd (links_loop W yd d ((url, t) # rest) st)))"
proof -
  from process_link_issues [OF assms] obtain r st1 where
    pl: "process_link W yd d (url, t) st = (None, st1)"
    and tr: "trace st1 = trace st @ Stream url (truediv yd (build_filename d t url)) # r" by blast
  from links_loop_events [of W yd d rest st1] obtain evs where
    "trace (snd (links_loop W yd d rest st1)) = trace st1 @ evs" by blast
  then have "trace (snd (links_loop W yd d ((url, t) # rest) st))
      = (trace st @ [Stream url (truediv yd (build_filename d t url))]) @ (r @ evs)"
    using pl tr by simp
  then show ?thesis by (simp only: prefixI)
qed

lemma build_filename_prefix: "prefix (d @ ustr ''_'') (build_filename d t url)"
  by (simp add: build_filename_def Let_def)

lemma py_str_777: "py_str 777 = ustr ''777''"
  by (simp add: py_str.simps ustr_def)

lemma process_page_no_date:
  assumes "\<forall>s\<in>set (possible_texts h). re_search date_at s = None"
  shows "parse_meeting_date (Accepted h) = Inr []"
    and "process_page W yd mid (Accepted h) st
           = links_loop W yd (ustr ''id'' @ py_str mid) (dedup (file_link_matches h)) st"
proof -
  show pd: "parse_meeting_date (Accepted h) = Inr []"
    using assms by (simp add: parse_meeting_date_def BeautifulSoup_def scan_texts_no_match)
  show "process_page W yd mid (Accepted h) st
           = links_loop W yd (ustr ''id'' @ py_str mid) (dedup (file_link_matches h)) st"
    using pd by (simp add: process_page_def extract_file_links_def BeautifulSoup_def)
qed

lemma process_page_stat_raises:
  assumes "\<forall>s\<in>set (possible_texts h). re_search date_at s = None"
    "dedup (file_link_matches h) = (url, t) # rest"
    "fs st (truediv yd (build_filename (ustr ''id'' @ py_str mid) t url)) = None"
    "stat_raises W (truediv yd (build_filename (ustr ''id'' @ py_str mid) t url))"
  shows "process_page W yd mid (Accepted h) st = (Some OSError, st)"
  using process_page_no_date(2) [OF assms(1), of W yd mid st] assms(2-4)
  by (simp add: process_link_stat_raises)

text \<open>
  Claim C6, as the code has it. A page that the parser rejects makes the date extractor
  raise, whatever its text (CPython's \<^verbatim>\<open>html.parser\<close> gives up on a marked section
  with an unknown keyword, and BeautifulSoup passes that on as
  \<^verbatim>\<open>ParserRejectedMarkup\<close>); nothing in the orchestrator catches it.
\<close>

theorem parser_rejection_raises:
  "parse_meeting_date Rejected = Inl ParserRejectedMarkup
   \<and> parse_meeting_date Rejected \<noteq> Inr []
   \<and> process_page year_2022_down [ustr ''joplin_council_pdfs'', ustr ''2022''] 777 Rejected empty_state
       = (Some ParserRejectedMarkup, empty_state)"
  by (simp add: parse_meeting_date_def BeautifulSoup_def process_page_def)

text \<open>
  Claim C6, amended. When the parser accepts the meeting page and the date pattern
  matches in none of its candidate fragments, the date extractor returns the empty
  string and raises nothing. The orchestrator then runs the loop over the file links of
  the page with \<^verbatim>\<open>id\<close> and the meeting identifier as the date string: when the
  destination of the first link is absent and can be tested and its directory made, the
  first thing the orchestrator does is the download with the destination
  \<^verbatim>\<open>id<meeting_id>_<type><ext>\<close> in the year's directory, and every download it starts
  for the meeting has a destination whose name begins with \<^verbatim>\<open>id<meeting_id>_\<close>. For the
  meeting 777 the file names begin with \<^verbatim>\<open>id777_\<close>.
\<close>

theorem no_date_falls_back_to_id:
  "((\<forall>s\<in>set (possible_texts h). re_search date_at s = None) \<longrightarrow>
      parse_meeting_date (Accepted h) = Inr []
      \<and> (\<exists>links. extract_file_links (Accepted h) = Inr links
            \<and> process_page W year_dir meeting_id (Accepted h) st
                = links_loop W year_dir (ustr ''id'' @ py_str meeting_id) links st
            \<and> (\<forall>url t rest.
                  links = (url, t) # rest
                  \<and> fs st (truediv year_dir (ustr ''id'' @ py_str meeting_id @ ustr ''_'' @ t
                        @ (if path_suffix url = [] then ustr ''.pdf'' else path_suffix url))) = None
                  \<and> \<not> stat_raises W (truediv year_dir (ustr ''id'' @ py_str meeting_id @ ustr ''_'' @ t
                        @ (if path_suffix url = [] then ustr ''.pdf'' else path_suffix url)))
                  \<and> fst (mkdir_parents (butlast (truediv year_dir (ustr ''id'' @ py_str meeting_id
                        @ ustr ''_'' @ t
                        @ (if path_suffix url = [] then ustr ''.pdf'' else path_suffix url)))) (fs st)) = None
                  \<longrightarrow>
                  prefix (trace st @ [Stream url (truediv year_dir (ustr ''id'' @ py_str meeting_id
                            @ ustr ''_'' @ t
                            @ (if path_suffix url = [] then ustr ''.pdf'' else path_suffix url)))])
                    (trace (snd (process_page W year_dir meeting_id (Accepted h) st)))))
      \<and> (\<exists>evs. trace (snd (process_page W year_dir meeting_id (Accepted h) st)) = trace st @ evs
            \<and> (\<forall>url dst. Stream url dst \<in> set evs \<longrightarrow>
                  (\<exists>name. dst = truediv year_dir name
                      \<and> prefix (ustr ''id'' @ py_str meeting_id @ ustr ''_'') name))))
   \<and> prefix (ustr ''id777_'') (build_filename (ustr ''id'' @ py_str 777) ftype file_url)"
proof (intro conjI impI)
  assume a: "\<forall>s\<in>set (possible_texts h). re_search date_at s = None"
  let ?d = "ustr ''id'' @ py_str meeting_id"
  let ?links = "dedup (file_link_matches h)"
  show "parse_meeting_date (Accepted h) = Inr []" using a by (rule process_page_no_date)
  have pp: "process_page W year_dir meeting_id (Accepted h) st = links_loop W year_dir ?d ?links st"
    using a by (rule process_page_no_date)
  have fl: "extract_file_links (Accepted h) = Inr ?links"
    by (simp add: extract_file_links_def BeautifulSoup_def)
  have name: "ustr ''id'' @ py_str meeting_id @ ustr ''_'' @ t
        @ (if path_suffix url = [] then ustr ''.pdf'' else path_suffix url) = build_filename ?d t url" for t url
    by (simp add: build_filename_def Let_def)
  have first: "\<forall>url t rest.
        ?links = (url, t) # rest
        \<and> fs st (truediv year_dir (build_filename ?d t url)) = None
        \<and> \<not> stat_raises W (truediv year_dir (build_filename ?d t url))
        \<and> fst (mkdir_parents (butlast (truediv year_dir (build_filename ?d t url))) (fs st)) = None
        \<longrightarrow>
        prefix (trace st @ [Stream url (truediv year_dir (build_filename ?d t url))])
          (trace (snd (process_page W year_dir meeting_id (Accepted h) st)))"
  proof (intro allI impI)
    fix url t rest
    assume b: "?links = (url, t) # rest
        \<and> fs st (truediv year_dir (build_filename ?d t url)) = None
        \<and> \<not> stat_raises W (truediv year_dir (build_filename ?d t url))
        \<and> fst (mkdir_parents (butlast (truediv year_dir (build_filename ?d t url))) (fs st)) = None"
    then have "prefix (trace st @ [Stream url (truediv year_dir (build_filename ?d t url))])
          (trace (snd (links_loop W year_dir ?d ((url, t) # rest) st)))"
      using links_loop_first [of st year_dir ?d t url W rest] by blast
    then show "prefix (trace st @ [Stream url (truediv year_dir (build_filename ?d t url))])
          (trace (snd (process_page W year_dir meeting_id (Accepted h) st)))"
      using pp b by simp
  qed
  show "\<exists>links. extract_file_links (Accepted h) = Inr links
            \<and> process_page W year_dir meeting_id (Accepted h) st
                = links_loop W year_dir (ustr ''id'' @ py_str meeting_id) links st
            \<and> (\<forall>url t rest.
                  links = (url, t) # rest
                  \<and> fs st (truediv year_dir (ustr ''id'' @ py_str meeting_id @ ustr ''_'' @ t
                        @ (if path_suffix url = [] then ustr ''.pdf'' else path_suffix url))) = None
                  \<and> \<not> stat_raises W (truediv year_dir (ustr ''id'' @ py_str meeting_id @ ustr ''_'' @ t
                        @ (if path_suffix url = [] then ustr ''.pdf'' else path_suffix url)))
                  \<and> fst (mkdir_parents (butlast (truediv year_dir (ustr ''id'' @ py_str meeting_id
                        @ ustr ''_'' @ t
                        @ (if path_suffix url = [] then ustr ''.pdf'' else path_suffix url)))) (fs st)) = None
                  \<longrightarrow>
                  prefix (trace st @ [Stream url (truediv year_dir (ustr ''id'' @ py_str meeting_id
                            @ ustr ''_'' @ t
                            @ (if path_suffix url = [] then ustr ''.pdf'' else path_suffix url)))])
                    (trace (snd (process_page W year_dir meeting_id (Accepted h) st))))"
    using fl pp first unfolding name by blast
  from links_loop_events [of W year_dir ?d ?links st] obtain evs where
    evs: "trace (snd (links_loop W year_dir ?d ?links st)) = trace st @ evs"
      "\<forall>u p. Stream u p \<in> set evs \<longrightarrow> (\<exists>t url. p = truediv year_dir (build_filename ?d t url))"
    by blast
  have "\<forall>url dst. Stream url dst \<in> set evs \<longrightarrow>
      (\<exists>name. dst = truediv year_dir name \<and> prefix (ustr ''id'' @ py_str meeting_id @ ustr ''_'') name)"
  proof (intro allI impI)
    fix url dst assume "Stream url dst \<in> set evs"
    with evs(2) obtain t u where "dst = truediv year_dir (build_filename ?d t u)" by blast
    moreover have "prefix (ustr ''id'' @ py_str meeting_id @ ustr ''_'') (build_filename ?d t u)"
      using build_filename_prefix [of ?d t u] by simp
    ultimately show "\<exists>name. dst = truediv year_dir name \<and> prefix (ustr ''id'' @ py_str meeting_id @ ustr ''_'') name"
      by blast
  qed
  with evs(1) pp show "\<exists>evs. trace (snd (process_page W year_dir meeting_id (Accepted h) st)) = trace st @ evs
            \<and> (\<forall>url dst. Stream url dst \<in> set evs \<longrightarrow>
                  (\<exists>name. dst = truediv year_dir name
                      \<and> prefix (ustr ''id'' @ py_str meeting_id @ ustr ''_'') name))"
    by auto
next
  show "prefix (ustr ''id777_'') (build_filename (ustr ''id'' @ py_str 777) ftype file_url)"
    using build_filename_prefix [of "ustr ''id'' @ py_str 777" ftype file_url]
    by (simp add: py_str_777) (simp add: ustr_def)
qed

lemma no_date_page_texts: "possible_texts no_date_page = [ustr ''Agenda'', ustr ''City Council'']"
  by (simp add: no_date_page_def possible_texts_def) (simp add: ustr_def)

lemma no_date_page_links:
  "extract_file_links (Accepted no_date_page)
     = Inr [(ustr ''https://www.joplinmo.org/AgendaCenter/ViewFile/Agenda/_05012023-777'', ustr ''agenda'')]"
  by (simp add: no_date_page_def extract_file_links_def BeautifulSoup_def file_link_matches_def
      link_eval text_eval)

lemma no_date_suffix:
  "path_suffix (ustr ''https://www.joplinmo.org/AgendaCenter/ViewFile/Agenda/_05012023-777'') = []"
  by (simp add: path_eval ustr_def)

lemma no_date_dst:
  "truediv [ustr ''joplin_council_pdfs'', ustr ''2022'']
      (ustr ''id'' @ py_str 777 @ ustr ''_'' @ ustr ''agenda'' @ ustr ''.pdf'')
     = [ustr ''joplin_council_pdfs'', ustr ''2022'', ustr ''id777_agenda.pdf'']"
  by (simp add: path_eval py_str.simps ustr_def)

lemma no_date_mkdir:
  "fst (mkdir_parents (butlast [ustr ''joplin_council_pdfs'', ustr ''2022'', ustr ''id777_agenda.pdf''])
          (fs empty_state)) = None"
  by (simp add: mkdir_parents_def empty_state_def)

lemma no_date_run:
  "trace (snd (process_page year_2022_down [ustr ''joplin_council_pdfs'', ustr ''2022''] 777
                 (Accepted no_date_page) empty_state))
     = [Stream (ustr ''https://www.joplinmo.org/AgendaCenter/ViewFile/Agenda/_05012023-777'')
          [ustr ''joplin_council_pdfs'', ustr ''2022'', ustr ''id777_agenda.pdf''], Sleep]"
proof -
  have pd: "parse_meeting_date (Accepted no_date_page) = Inr []"
    by (simp add: parse_meeting_date_def BeautifulSoup_def no_date_page_texts agenda_no_date council_no_date)
  have fn: "build_filename (ustr ''id'' @ py_str 777) (ustr ''agenda'')
      (ustr ''https://www.joplinmo.org/AgendaCenter/ViewFile/Agenda/_05012023-777'')
      = ustr ''id'' @ py_str 777 @ ustr ''_'' @ ustr ''agenda'' @ ustr ''.pdf''"
    by (simp add: build_filename_def no_date_suffix)
  show ?thesis
    by (simp add: process_page_def pd no_date_page_links process_link_def path_exists_def fn no_date_dst
        empty_state_def download_def mkdir_parents_def year_2022_down_def Let_def)
qed

theorem no_date_falls_back_to_id_witness:
  "possible_texts no_date_page = [ustr ''Agenda'', ustr ''City Council'']
   \<and> re_search date_at (ustr ''Agenda'') = None
   \<and> re_search date_at (ustr ''City Council'') = None
   \<and> parse_meeting_date (Accepted no_date_page) = Inr []
   \<and> extract_file_links (Accepted no_date_page)
       = Inr [(ustr ''https://www.joplinmo.org/AgendaCenter/ViewFile/Agenda/_05012023-777'', ustr ''agenda'')]
   \<and> process_page year_2022_down [ustr ''joplin_council_pdfs'', ustr ''2022''] 777 (Accepted no_date_page) empty_state
       = links_loop year_2022_down [ustr ''joplin_council_pdfs'', ustr ''2022''] (ustr ''id'' @ py_str 777)
           [(ustr ''https://www.joplinmo.org/AgendaCenter/ViewFile/Agenda/_05012023-777'', ustr ''agenda'')]
           empty_state
   \<and> fs empty_state [ustr ''joplin_council_pdfs'', ustr ''2022'', ustr ''id777_agenda.pdf''] = None
   \<and> \<not> stat_raises year_2022_down [ustr ''joplin_council_pdfs'', ustr ''2022'', ustr ''id777_agenda.pdf'']
   \<and> fst (mkdir_parents (butlast [ustr ''joplin_council_pdfs'', ustr ''2022'', ustr ''id777_agenda.pdf''])
             (fs empty_state)) = None
   \<and> prefix (trace empty_state
              @ [Stream (ustr ''https://www.joplinmo.org/AgendaCenter/ViewFile/Agenda/_05012023-777'')
                   [ustr ''joplin_council_pdfs'', ustr ''2022'', ustr ''id777_agenda.pdf'']])
        (trace (snd (process_page year_2022_down [ustr ''joplin_council_pdfs'', ustr ''2022''] 777
                       (Accepted no_date_page) empty_state)))
   \<and> trace (snd (process_page year_2022_down [ustr ''joplin_council_pdfs'', ustr ''2022''] 777
                    (Accepted no_date_page) empty_state))
       = [Stream (ustr ''https://www.joplinmo.org/AgendaCenter/ViewFile/Agenda/_05012023-777'')
            [ustr ''joplin_council_pdfs'', ustr ''2022'', ustr ''id777_agenda.pdf''], Sleep]"
proof -
  let ?yd = "[ustr ''joplin_council_pdfs'', ustr ''2022'']"
  let ?url = "ustr ''https://www.joplinmo.org/AgendaCenter/ViewFile/Agenda/_05012023-777''"
  let ?dst = "[ustr ''joplin_council_pdfs'', ustr ''2022'', ustr ''id777_agenda.pdf'']"
  have h: "\<forall>s\<in>set (possible_texts no_date_page). re_search date_at s = None"
    by (simp add: no_date_page_texts agenda_no_date council_no_date)
  have d: "truediv ?yd (ustr ''id'' @ py_str 777 @ ustr ''_'' @ ustr ''agenda''
        @ (if path_suffix ?url = [] then ustr ''.pdf'' else path_suffix ?url)) = ?dst"
    by (simp add: no_date_suffix no_date_dst)
  have absent: "fs empty_state ?dst = None" by (simp add: empty_state_def)
  have stat: "\<not> stat_raises year_2022_down ?dst" by (simp add: year_2022_down_def)
  from no_date_falls_back_to_id [of no_date_page year_2022_down ?yd 777 empty_state] h
  obtain links where pd: "parse_meeting_date (Accepted no_date_page) = Inr []"
    and fl: "extract_file_links (Accepted no_date_page) = Inr links"
    and pp: "process_page year_2022_down ?yd 777 (Accepted no_date_page) empty_state
        = links_loop year_2022_down ?yd (ustr ''id'' @ py_str 777) links empty_state"
    and first: "\<forall>url t rest.
        links = (url, t) # rest
        \<and> fs empty_state (truediv ?yd (ustr ''id'' @ py_str 777 @ ustr ''_'' @ t
              @ (if path_suffix url = [] then ustr ''.pdf'' else path_suffix url))) = None
        \<and> \<not> stat_raises year_2022_down (truediv ?yd (ustr ''id'' @ py_str 777 @ ustr ''_'' @ t
              @ (if path_suffix url = [] then ustr ''.pdf'' else path_suffix url)))
        \<and> fst (mkdir_parents (butlast (truediv ?yd (ustr ''id'' @ py_str 777 @ ustr ''_'' @ t
              @ (if path_suffix url = [] then ustr ''.pdf'' else path_suffix url)))) (fs empty_state)) = None
        \<longrightarrow>
        prefix (trace empty_state @ [Stream url (truediv ?yd (ustr ''id'' @ py_str 777 @ ustr ''_'' @ t
              @ (if path_suffix url = [] then ustr ''.pdf'' else path_suffix url)))])
          (trace (snd (process_page year_2022_down ?yd 777 (Accepted no_date_page) empty_state)))"
    by blast
  have links: "links = (?url, ustr ''agenda'') # []" using fl no_date_page_links by simp
  from first [rule_format, of ?url "ustr ''agenda''" "[]"] links absent stat no_date_mkdir
  have pre: "prefix (trace empty_state @ [Stream ?url ?dst])
      (trace (snd (process_page year_2022_down ?yd 777 (Accepted no_date_page) empty_state)))"
    by (simp only: d) simp
  show ?thesis
    using no_date_page_texts agenda_no_date council_no_date pd no_date_page_links pp links absent stat
      no_date_mkdir pre no_date_run
    by simp
qed

subsection \<open>A listing page that cannot be fetched\<close>

lemma scrape_year_listing_fails:
  "respond W (trace st) (LIST_URL_TMPL yr) = None \<Longrightarrow>
     scrape_year W yr out_root st = (Some RequestError, st\<lparr>trace := trace st @ [Fetch (LIST_URL_TMPL yr)]\<rparr>)"
  by (simp add: scrape_year_def fetch_def)

text \<open>
  Claim C1, on the code: \<^verbatim>\<open>scrape_year\<close> calls \<^verbatim>\<open>fetch\<close> for the listing page outside
  any \<^verbatim>\<open>try\<close>, and \<^verbatim>\<open>main\<close> catches nothing. When the listing page of a year cannot
  be fetched, the loop over the years ends with the error right after that one request;
  the years that follow are not requested. For the first year, 2022, this is the whole
  run of \<^verbatim>\<open>main\<close>.
\<close>

theorem listing_failure_ends_run:
  "(respond W (trace st) (LIST_URL_TMPL yr) = None \<longrightarrow>
      years_loop W out_root (yr # rest) st
        = (Some RequestError, st\<lparr>trace := trace st @ [Fetch (LIST_URL_TMPL yr)]\<rparr>))
   \<and> (respond W (trace st) (LIST_URL_TMPL 2022) = None \<longrightarrow>
      main W st = (Some RequestError, st\<lparr>trace := trace st @ [Fetch (LIST_URL_TMPL 2022)]\<rparr>))"
proof (intro conjI impI)
  assume "respond W (trace st) (LIST_URL_TMPL yr) = None"
  then show "years_loop W out_root (yr # rest) st
        = (Some RequestError, st\<lparr>trace := trace st @ [Fetch (LIST_URL_TMPL yr)]\<rparr>)"
    by (simp add: scrape_year_listing_fails)
next
  have ys: "[2022..<2026] = 2022 # [2023..<2026]" by (simp add: upt_rec)
  assume "respond W (trace st) (LIST_URL_TMPL 2022) = None"
  then show "main W st = (Some RequestError, st\<lparr>trace := trace st @ [Fetch (LIST_URL_TMPL 2022)]\<rparr>)"
    by (simp add: main_def ys scrape_year_listing_fails)
qed

lemma list_urls_differ: "LIST_URL_TMPL 2023 \<noteq> LIST_URL_TMPL 2022"
  by (simp add: LIST_URL_TMPL_def py_str.simps)

theorem listing_failure_ends_run_witness:
  "respond year_2022_down (trace empty_state) (LIST_URL_TMPL 2022) = None
   \<and> respond year_2022_down (trace empty_state @ [Fetch (LIST_URL_TMPL 2022)]) (LIST_URL_TMPL 2023) \<noteq> None
   \<and> years_loop year_2022_down (Path (ustr ''joplin_council_pdfs'')) (2022 # [2023, 2024, 2025]) empty_state
       = (Some RequestError, empty_state\<lparr>trace := trace empty_state @ [Fetch (LIST_URL_TMPL 2022)]\<rparr>)
   \<and> main year_2022_down empty_state
       = (Some RequestError, empty_state\<lparr>trace := trace empty_state @ [Fetch (LIST_URL_TMPL 2022)]\<rparr>)"
proof -
  have a: "respond year_2022_down (trace empty_state) (LIST_URL_TMPL 2022) = None"
    by (simp add: year_2022_down_def)
  have b: "respond year_2022_down (trace empty_state @ [Fetch (LIST_URL_TMPL 2022)]) (LIST_URL_TMPL 2023) \<noteq> None"
    using list_urls_differ by (simp add: year_2022_down_def)
  from listing_failure_ends_run [of year_2022_down empty_state 2022 "Path (ustr ''joplin_council_pdfs'')"
      "[2023, 2024, 2025]"] a b
  show ?thesis by blast
qed

end
